theory Spec2Isabelle
  imports Main "HOL-Library.Sublist"
begin

section \<open>Python values used throughout\<close>

text \<open>
  Exceptions are values: every \<^verbatim>\<open>raise\<close> of the source is an \<open>Inl\<close> branch of the
  model. \<open>InvalidReference\<close> has no Python counterpart (a Python reference never
  dangles); it keeps the store lookups of the reference resolver total.
\<close>

datatype error =
    KeyError string
  | TypeError string
  | AttributeError string
  | IndexError string
  | ValueError string
  | InvalidReference

text \<open>\<^verbatim>\<open>str(n)\<close> of a non-negative integer: its decimal digits.\<close>

definition digit_char :: "nat \<Rightarrow> char" where
  "digit_char d = ''0123456789'' ! d"

fun str_nat :: "nat \<Rightarrow> string" where
  "str_nat n = (if n < 10 then [digit_char n] else str_nat (n div 10) @ [digit_char (n mod 10)])"

declare str_nat.simps [simp del]

definition str_int :: "int \<Rightarrow> string" where
  "str_int i = (if i < 0 then CHR ''-'' # str_nat (nat (- i)) else str_nat (nat i))"

text \<open>
  \<^verbatim>\<open>xs[:n]\<close> for a Python integer \<open>n\<close>: the first \<open>n\<close> elements, and for a negative
  \<open>n\<close> all but the last \<open>-n\<close>. A slice never raises.
\<close>

definition slice_to :: "'a list \<Rightarrow> int \<Rightarrow> 'a list" where
  "slice_to xs n = (if 0 \<le> n then take (nat n) xs else take (length xs - nat (- n)) xs)"

section \<open>Entity model (py4a/api/entity.py)\<close>

text \<open>
  Every entity class extends \<^verbatim>\<open>Entity\<close>, whose only attribute is \<^verbatim>\<open>name\<close>. The
  records below carry the attributes of each class under the source's names, prefixed
  where two classes use the same attribute name (\<^verbatim>\<open>name\<close>, \<^verbatim>\<open>type\<close>, \<^verbatim>\<open>default\<close>,
  \<^verbatim>\<open>args\<close>).
\<close>

record Argument =
  arg_name :: string
  arg_type :: "string option"
  arg_default :: "string option"
  pos_only :: bool
  kw_only :: bool
  vararg :: bool
  kwarg :: bool

record Function =
  fn_name :: string
  fn_args :: "Argument list"
  returns :: "string option"
  decorators :: "string list"
  is_async :: bool

record Variable =
  var_name :: string
  var_type :: "string option"
  var_value :: "string option"

datatype Class = Class
  (cls_name: string)
  (bases: "string list")
  (fields: "Variable list")
  (static_fields: "Variable list")
  (methods: "Function list")
  (classes: "Class list")
  (cls_decorators: "string list")

text \<open>
  \<^verbatim>\<open>Function.get_arg\<close>: the loop returns the first argument of that name; when it
  ends without one, the statement \<^verbatim>\<open>raise None\<close> runs, and Python raises
  \<^verbatim>\<open>TypeError: exceptions must derive from BaseException\<close>. The declared result
  is \<^verbatim>\<open>Optional[Argument]\<close>, hence the \<open>option\<close> under \<open>Inr\<close>.
\<close>

fun find_arg :: "Argument list \<Rightarrow> string \<Rightarrow> error + Argument option" where
  "find_arg [] s = Inl (TypeError ''exceptions must derive from BaseException'')"
| "find_arg (a # as) s = (if arg_name a = s then Inr (Some a) else find_arg as s)"

definition get_arg :: "Function \<Rightarrow> string \<Rightarrow> error + Argument option" where
  "get_arg f s = find_arg (fn_args f) s"

section \<open>Signature matcher (py4a/client/analyzer.py)\<close>

text \<open>
  A \<^verbatim>\<open>Call\<close> holds the number of positional arguments (a Python \<^verbatim>\<open>int\<close>), the set
  of keyword names, and the two spread flags. The matcher iterates over the set
  \<^verbatim>\<open>kwargs\<close>; Python leaves that order open, so the record holds the keyword names as
  the list in which the iteration yields them, and every theorem holds for each order.
\<close>

record Call =
  call_name :: string
  call_args :: int
  kwargs :: "string list"
  starargs :: bool
  additional_kwargs :: bool

text \<open>The first loop of \<^verbatim>\<open>Call.match\<close> fills five variables from the signature.\<close>

definition cand_posargs :: "Function \<Rightarrow> string list" where
  "cand_posargs func =
     map arg_name (filter (\<lambda>a. \<not> kwarg a \<and> \<not> vararg a \<and> \<not> kw_only a) (fn_args func))"

definition cand_kwargs :: "Function \<Rightarrow> string list" where
  "cand_kwargs func =
     map arg_name (filter (\<lambda>a. \<not> kwarg a \<and> \<not> vararg a \<and> \<not> pos_only a) (fn_args func))"

definition posonly_args :: "Function \<Rightarrow> string list" where
  "posonly_args func = map arg_name (filter pos_only (fn_args func))"

definition allow_additional_posargs :: "Function \<Rightarrow> bool" where
  "allow_additional_posargs func = (\<exists>a \<in> set (fn_args func). vararg a)"

definition allow_additional_kwargs :: "Function \<Rightarrow> bool" where
  "allow_additional_kwargs func = (\<exists>a \<in> set (fn_args func). kwarg a)"

text \<open>
  The second loop, over the call's keyword names: \<open>cand\<close> is the set \<^verbatim>\<open>cand_kwargs\<close>
  after the positionally matched names were taken out, \<open>matched\<close> is the set
  \<^verbatim>\<open>matched_args\<close>.
  It returns the mismatch or the final \<^verbatim>\<open>matched_args\<close>.
\<close>

fun match_kwargs ::
  "string list \<Rightarrow> string set \<Rightarrow> bool \<Rightarrow> string set \<Rightarrow> string list \<Rightarrow> string + string set" where
  "match_kwargs posonly cand allow_kw matched [] = Inr matched"
| "match_kwargs posonly cand allow_kw matched (kw # kws) =
     (if kw \<in> set posonly then Inl (kw @ '' is position-only argument'')
      else if kw \<notin> cand \<and> \<not> allow_kw then Inl (kw @ '' is not allowed as keyword argument'')
      else match_kwargs posonly cand allow_kw (insert kw matched) kws)"

text \<open>The third loop, over the signature's arguments, looks for a missing required one.\<close>

fun match_required :: "Call \<Rightarrow> string \<Rightarrow> string set \<Rightarrow> Argument list \<Rightarrow> bool \<times> string" where
  "match_required c fname matched [] = (True, '''')"
| "match_required c fname matched (a # as) =
     (if kwarg a \<or> vararg a then match_required c fname matched as
      else if arg_default a = None \<and> arg_name a \<notin> matched then
        (if \<not> additional_kwargs c \<and> \<not> starargs c
           then (False, fname @ ''() missing one required argument '' @ arg_name a)
         else if kw_only a \<and> \<not> additional_kwargs c
           then (False, fname @ ''() missing one required argument '' @ arg_name a)
         else if pos_only a \<and> \<not> starargs c
           then (False, fname @ ''() missing one required argument '' @ arg_name a)
         else match_required c fname matched as)
      else match_required c fname matched as)"

text \<open>
  The message for too many positional arguments is an f-string that formats two integers.
  CPython refuses to turn an integer into a string when it has more decimal digits than
  \<^verbatim>\<open>sys.get_int_max_str_digits()\<close> (4300 unless configured; 0 switches the limit
  off) and raises ValueError. The limit is the parameter \<open>max_str_digits\<close>.
\<close>

definition within_str_digits :: "nat \<Rightarrow> int \<Rightarrow> bool" where
  "within_str_digits max_str_digits i =
     (max_str_digits = 0 \<or> length (str_nat (nat \<bar>i\<bar>)) \<le> max_str_digits)"

definition int_max_str_digits_error :: "nat \<Rightarrow> error" where
  "int_max_str_digits_error max_str_digits =
     ValueError (''Exceeds the limit ('' @ str_nat max_str_digits
       @ '' digits) for integer string conversion; ''
       @ ''use sys.set_int_max_str_digits() to increase the limit'')"

definition format_int :: "nat \<Rightarrow> int \<Rightarrow> error + string" where
  "format_int max_str_digits i =
     (if within_str_digits max_str_digits i then Inr (str_int i)
      else Inl (int_max_str_digits_error max_str_digits))"

text \<open>\<^verbatim>\<open>num_args = self.args if not class_func else self.args + 1\<close>.\<close>

definition num_args :: "Call \<Rightarrow> bool \<Rightarrow> int" where
  "num_args c class_func = (if \<not> class_func then call_args c else call_args c + 1)"

definition match :: "nat \<Rightarrow> Call \<Rightarrow> Function \<Rightarrow> bool \<Rightarrow> error + bool \<times> string" where
  "match max_str_digits c func class_func =
     (if num_args c class_func > int (length (cand_posargs func))
         \<and> \<not> allow_additional_posargs func then
        (case format_int max_str_digits (int (length (cand_posargs func))) of
           Inl e \<Rightarrow> Inl e
         | Inr up_to \<Rightarrow>
             (case format_int max_str_digits (num_args c class_func) of
                Inl e \<Rightarrow> Inl e
              | Inr given \<Rightarrow>
                  Inr (False, fn_name func @ ''() takes up to '' @ up_to
                              @ '' positional arguments but '' @ given @ '' are given'')))
      else
        let matched_args = set (slice_to (cand_posargs func) (num_args c class_func));
            cand = set (cand_kwargs func) - matched_args
        in case match_kwargs (posonly_args func) cand (allow_additional_kwargs func)
                  matched_args (kwargs c) of
             Inl msg \<Rightarrow> Inr (False, msg)
           | Inr matched \<Rightarrow> Inr (match_required c (fn_name func) matched (fn_args func)))"

section \<open>Diff engine (py4a/api/diff.py)\<close>

datatype DiffType =
    ClsAdd | ClsRem | FuncAdd | FuncRem
  | ReqParamAdd | ReqParamRem | OptParamAdd | OptParamRem
  | ParamReorder | ParamDefValAdd | ParamDefValRem | ParamDefValChg
  | VarAdd | VarRem

record Diff =
  diff_type :: DiffType
  api_name :: string
  param :: "string option"
  old_value :: "string option"
  new_value :: "string option"
  clients_total :: int
  clients_used :: int
  clients_impacted :: int

text \<open>The constructor \<^verbatim>\<open>Diff(diff_type, api_name, param, old_value, new_value)\<close>; the
  three client counters default to 0.\<close>

definition mk_Diff :: "DiffType \<Rightarrow> string \<Rightarrow> string option \<Rightarrow> string option \<Rightarrow> string option \<Rightarrow> Diff" where
  "mk_Diff t n p ov nv =
     \<lparr>diff_type = t, api_name = n, param = p, old_value = ov, new_value = nv,
      clients_total = 0, clients_used = 0, clients_impacted = 0\<rparr>"

text \<open>\<^verbatim>\<open>v.startswith("<")\<close>, \<^verbatim>\<open>"(" in v\<close> and \<^verbatim>\<open>v.split("(")[0]\<close>.\<close>

definition same_default_value :: "string \<Rightarrow> string \<Rightarrow> bool" where
  "same_default_value v1 v2 =
     (if take 1 v1 = ''<'' \<and> take 1 v2 = ''<'' then True
      else if CHR ''('' \<in> set v1 \<and> CHR ''('' \<in> set v2
              \<and> takeWhile (\<lambda>c. c \<noteq> CHR ''('') v1 = takeWhile (\<lambda>c. c \<noteq> CHR ''('') v2 then True
      else if v1 = v2 then True
      else False)"

text \<open>
  The tables the first loop of \<^verbatim>\<open>diff_function\<close> builds for one side: \<^verbatim>\<open>p_all\<close>,
  \<^verbatim>\<open>opt\<close>, \<^verbatim>\<open>p2def\<close> and \<^verbatim>\<open>p2pos\<close>. A dictionary keeps the last value stored
  under a key. The three later loops iterate over Python sets, whose order Python leaves
  open: the model fixes one order (that of \<open>remdups\<close> on the argument names), and
  nothing proved below depends on it.
\<close>

definition p_all :: "Function \<Rightarrow> string list" where
  "p_all api = remdups (map arg_name (fn_args api))"

definition opt :: "Function \<Rightarrow> string set" where
  "opt api = set (map arg_name (filter (\<lambda>a. arg_default a \<noteq> None) (fn_args api)))"

definition p2def :: "Function \<Rightarrow> string \<Rightarrow> string option" where
  "p2def api =
     map_of (rev (concat (map (\<lambda>a. case arg_default a of None \<Rightarrow> [] | Some d \<Rightarrow> [(arg_name a, d)])
                            (fn_args api))))"

definition p2pos :: "Function \<Rightarrow> string \<Rightarrow> nat option" where
  "p2pos api = map_of (rev (zip (map arg_name (fn_args api)) [0 ..< length (fn_args api)]))"

text \<open>The body of the loop over the names on both sides.\<close>

definition common_param_diffs :: "Function \<Rightarrow> Function \<Rightarrow> string \<Rightarrow> string \<Rightarrow> Diff list" where
  "common_param_diffs old new full_name p =
     (if p \<in> opt old \<and> p \<notin> opt new
        then [mk_Diff ParamDefValAdd full_name (Some p) (p2def old p) None] else [])
     @ (if p \<notin> opt old \<and> p \<in> opt new
        then [mk_Diff ParamDefValRem full_name (Some p) None (p2def new p)] else [])
     @ (case (p2def old p, p2def new p) of
          (Some d_old, Some d_new) \<Rightarrow>
            if p \<in> opt old \<and> p \<in> opt new \<and> \<not> same_default_value d_old d_new
              then [mk_Diff ParamDefValChg full_name (Some p) (Some d_old) (Some d_new)] else []
        | _ \<Rightarrow> [])
     @ (if p2pos old p \<noteq> p2pos new p
        then [mk_Diff ParamReorder full_name (Some p) None None] else [])"

definition diff_function :: "Function \<Rightarrow> Function \<Rightarrow> string \<Rightarrow> Diff list" where
  "diff_function old new full_name =
     map (\<lambda>p. if p \<in> opt new then mk_Diff OptParamAdd full_name (Some p) None None
               else mk_Diff ReqParamAdd full_name (Some p) None None)
         (filter (\<lambda>p. p \<notin> set (p_all old)) (p_all new))
     @ map (\<lambda>p. if p \<in> opt old then mk_Diff OptParamRem full_name (Some p) None None
                 else mk_Diff ReqParamRem full_name (Some p) None None)
         (filter (\<lambda>p. p \<notin> set (p_all new)) (p_all old))
     @ concat (map (common_param_diffs old new full_name)
         (filter (\<lambda>p. p \<in> set (p_all new)) (p_all old)))"

section \<open>Static extractor (py4a/api/static.py)\<close>

subsection \<open>The syntax tree\<close>

text \<open>
  The part of Python's \<^verbatim>\<open>ast\<close> the extractor looks at. Of an expression it only asks
  whether it is a \<^verbatim>\<open>Name\<close>, a \<^verbatim>\<open>Tuple\<close>, a \<^verbatim>\<open>List\<close> or an \<^verbatim>\<open>Attribute\<close>, and
  for its text; every other expression is \<open>OtherExpr\<close> with its source text. The
  library function \<^verbatim>\<open>ast.unparse\<close> is a parameter \<open>unparse\<close> of every function that
  calls it. \<open>OtherStmt\<close> is any statement the visitor has no method for, with the
  statements below it in the order \<^verbatim>\<open>generic_visit\<close> reaches them.
\<close>

datatype expr =
    Name string
  | Tuple "expr list"
  | ListExpr "expr list"
  | Attribute expr string
  | OtherExpr string

datatype ast_arg = Arg (arg: string) (annotation: "expr option")

datatype arguments = Arguments
  (posonlyargs: "ast_arg list")
  (args: "ast_arg list")
  (ast_vararg: "ast_arg option")
  (kwonlyargs: "ast_arg list")
  (kw_defaults: "expr option list")
  (ast_kwarg: "ast_arg option")
  (defaults: "expr list")

datatype import_alias = Alias (alias_name: string) (asname: "string option")

datatype stmt =
    FunctionDef string arguments "stmt list" "expr list" "expr option"
  | AsyncFunctionDef string arguments "stmt list" "expr list" "expr option"
  | ClassDef string "expr list" "stmt list" "expr list"
  | Assign "expr list" expr
  | AnnAssign expr expr "expr option"
  | Import "import_alias list"
  | ImportFrom "string option" "import_alias list" nat
  | OtherStmt "stmt list"

text \<open>What the extractor emits, and what a package holds once its imports are resolved.\<close>

datatype entity =
    EFunction Function
  | EClass Class
  | EVariable Variable
  | EAlias string string
  | EWildcardAlias string "string list"

fun entity_name :: "entity \<Rightarrow> string" where
  "entity_name (EFunction f) = fn_name f"
| "entity_name (EClass c) = cls_name c"
| "entity_name (EVariable v) = var_name v"
| "entity_name (EAlias n t) = n"
| "entity_name (EWildcardAlias n ts) = n"

text \<open>\<^verbatim>\<open>xs[i]\<close> for a Python integer index; a negative one counts from the end.\<close>

definition index :: "'a list \<Rightarrow> int \<Rightarrow> error + 'a" where
  "index xs i =
     (if i < - int (length xs) \<or> int (length xs) \<le> i
        then Inl (IndexError ''list index out of range'')
      else if i < 0 then Inr (xs ! nat (int (length xs) + i))
      else Inr (xs ! nat i))"

text \<open>Running a list of steps, each of which may raise: the first exception ends the run.\<close>

fun sequence :: "(error + 'a) list \<Rightarrow> error + 'a list" where
  "sequence [] = Inr []"
| "sequence (x # xs) =
     (case x of Inl e \<Rightarrow> Inl e
      | Inr v \<Rightarrow> (case sequence xs of Inl e \<Rightarrow> Inl e | Inr vs \<Rightarrow> Inr (v # vs)))"

subsection \<open>Functions and arguments\<close>

text \<open>The constructor \<^verbatim>\<open>Argument(name, type, default, pos_only, kw_only, vararg, kwarg)\<close>.\<close>

definition mk_Argument ::
  "string \<Rightarrow> string option \<Rightarrow> string option \<Rightarrow> bool \<Rightarrow> bool \<Rightarrow> bool \<Rightarrow> bool \<Rightarrow> Argument" where
  "mk_Argument n t d po ko va kw =
     \<lparr>arg_name = n, arg_type = t, arg_default = d, pos_only = po, kw_only = ko,
      vararg = va, kwarg = kw\<rparr>"

definition arg_type_of :: "(expr \<Rightarrow> string) \<Rightarrow> ast_arg \<Rightarrow> string option" where
  "arg_type_of unparse a = map_option unparse (annotation a)"

text \<open>The body of the loop over \<^verbatim>\<open>posonlyargs + args\<close>, at position \<open>i\<close>.\<close>

definition positional_argument ::
  "(expr \<Rightarrow> string) \<Rightarrow> arguments \<Rightarrow> nat \<Rightarrow> ast_arg \<Rightarrow> error + Argument" where
  "positional_argument unparse a i x =
     (let default_starts =
            int (length (posonlyargs a)) + int (length (args a)) - int (length (defaults a))
      in if int i \<ge> default_starts then
           (case index (defaults a) (int i - default_starts) of
              Inl e \<Rightarrow> Inl e
            | Inr d \<Rightarrow> Inr (mk_Argument (arg x) (arg_type_of unparse x) (Some (unparse d))
                              (i < length (posonlyargs a)) False False False))
         else Inr (mk_Argument (arg x) (arg_type_of unparse x) None
                     (i < length (posonlyargs a)) False False False))"

text \<open>The body of the loop over \<^verbatim>\<open>kwonlyargs\<close>, at position \<open>i\<close>.\<close>

definition kwonly_argument ::
  "(expr \<Rightarrow> string) \<Rightarrow> arguments \<Rightarrow> nat \<Rightarrow> ast_arg \<Rightarrow> error + Argument" where
  "kwonly_argument unparse a i x =
     (case index (kw_defaults a) (int i) of
        Inl e \<Rightarrow> Inl e
      | Inr d \<Rightarrow> Inr (mk_Argument (arg x) (arg_type_of unparse x) (map_option unparse d)
                        False True False False))"

definition convert_arguments :: "(expr \<Rightarrow> string) \<Rightarrow> arguments \<Rightarrow> error + Argument list" where
  "convert_arguments unparse a =
     (case sequence (map (\<lambda>(i, x). positional_argument unparse a i x)
                      (enumerate 0 (posonlyargs a @ args a))) of
        Inl e \<Rightarrow> Inl e
      | Inr positional \<Rightarrow>
          (case sequence (map (\<lambda>(i, x). kwonly_argument unparse a i x)
                           (enumerate 0 (kwonlyargs a))) of
             Inl e \<Rightarrow> Inl e
           | Inr kwonly \<Rightarrow>
               Inr (positional
                    @ (case ast_vararg a of None \<Rightarrow> []
                       | Some v \<Rightarrow> [mk_Argument (arg v) (arg_type_of unparse v) None
                                       False False True False])
                    @ kwonly
                    @ (case ast_kwarg a of None \<Rightarrow> []
                       | Some k \<Rightarrow> [mk_Argument (arg k) (arg_type_of unparse k) None
                                       False False False True]))))"

text \<open>
  \<^verbatim>\<open>_convert_function\<close> takes either kind of function definition;
  \<^verbatim>\<open>is_async\<close> is \<^verbatim>\<open>isinstance(func, ast.AsyncFunctionDef)\<close>. A node of another
  class lacks the attributes it reads.
\<close>

fun convert_function :: "(expr \<Rightarrow> string) \<Rightarrow> stmt \<Rightarrow> error + Function" where
  "convert_function unparse (FunctionDef n a body decorator_list rets) =
     (case convert_arguments unparse a of
        Inl e \<Rightarrow> Inl e
      | Inr as \<Rightarrow> Inr \<lparr>fn_name = n, fn_args = as, returns = map_option unparse rets,
                       decorators = map unparse decorator_list, is_async = False\<rparr>)"
| "convert_function unparse (AsyncFunctionDef n a body decorator_list rets) =
     (case convert_arguments unparse a of
        Inl e \<Rightarrow> Inl e
      | Inr as \<Rightarrow> Inr \<lparr>fn_name = n, fn_args = as, returns = map_option unparse rets,
                       decorators = map unparse decorator_list, is_async = True\<rparr>)"
| "convert_function unparse _ = Inl (AttributeError ''args'')"

subsection \<open>Variables\<close>

text \<open>\<^verbatim>\<open>assign.value.elts\<close> when \<^verbatim>\<open>isinstance(assign.value, (ast.Tuple, ast.List))\<close>.\<close>

fun literal_elts :: "expr \<Rightarrow> expr list option" where
  "literal_elts (Tuple es) = Some es"
| "literal_elts (ListExpr es) = Some es"
| "literal_elts _ = None"

text \<open>
  The inner loop of \<^verbatim>\<open>_convert_variables\<close> over the elements of a tuple target,
  from position \<open>i\<close> on. An element that is not a \<^verbatim>\<open>Name\<close> is skipped;
  \<^verbatim>\<open>assign.value.elts[i]\<close> raises IndexError when the literal on the right is shorter.
\<close>

fun convert_elts :: "(expr \<Rightarrow> string) \<Rightarrow> expr \<Rightarrow> nat \<Rightarrow> expr list \<Rightarrow> error + Variable list" where
  "convert_elts unparse rhs i [] = Inr []"
| "convert_elts unparse rhs i (Name ident # elts) =
     (case (case literal_elts rhs of
              Some rhs_elts \<Rightarrow> map_sum id unparse (index rhs_elts (int i))
            | None \<Rightarrow> Inr (unparse rhs @ ''['' @ str_nat i @ '']'')) of
        Inl e \<Rightarrow> Inl e
      | Inr v \<Rightarrow>
          (case convert_elts unparse rhs (Suc i) elts of
             Inl e \<Rightarrow> Inl e
           | Inr rest \<Rightarrow> Inr (\<lparr>var_name = ident, var_type = None, var_value = Some v\<rparr> # rest)))"
| "convert_elts unparse rhs i (_ # elts) = convert_elts unparse rhs (Suc i) elts"

text \<open>The body of the loop over the targets; \<open>t\<close> is the annotation's text.\<close>

fun convert_target :: "(expr \<Rightarrow> string) \<Rightarrow> string option \<Rightarrow> expr \<Rightarrow> expr \<Rightarrow> error + Variable list" where
  "convert_target unparse t rhs (Name ident) =
     Inr [\<lparr>var_name = ident, var_type = t, var_value = Some (unparse rhs)\<rparr>]"
| "convert_target unparse t rhs (Tuple elts) = convert_elts unparse rhs 0 elts"
| "convert_target unparse t rhs _ = Inr []"

fun convert_variables :: "(expr \<Rightarrow> string) \<Rightarrow> stmt \<Rightarrow> error + Variable list" where
  "convert_variables unparse (Assign targets rhs) =
     map_sum id concat (sequence (map (convert_target unparse None rhs) targets))"
| "convert_variables unparse (AnnAssign target ann None) = Inr []"
| "convert_variables unparse (AnnAssign target ann (Some rhs)) =
     map_sum id concat (sequence (map (convert_target unparse (Some (unparse ann)) rhs) [target]))"
| "convert_variables unparse _ = Inl (AttributeError ''value'')"

subsection \<open>The visitor\<close>

text \<open>
  \<^verbatim>\<open>_SourceVisitor\<close> defines \<^verbatim>\<open>visit_FunctionDef\<close>, \<^verbatim>\<open>visit_ClassDef\<close>,
  \<^verbatim>\<open>visit_Assign\<close> and \<^verbatim>\<open>visit_AnnAssign\<close>, none of which goes below its node. Any
  other node is handled by \<^verbatim>\<open>ast.NodeVisitor.generic_visit\<close>, which visits the nodes
  below it. \<open>visit\<close> returns what visiting one statement appends to
  \<^verbatim>\<open>api_entities\<close>. Class conversion is passed in as \<open>convert_class\<close>: what is proved
  holds whatever it returns.
\<close>

fun visit :: "(expr \<Rightarrow> string) \<Rightarrow> (stmt \<Rightarrow> error + Class) \<Rightarrow> stmt \<Rightarrow> error + entity list" where
  "visit unparse convert_class (FunctionDef n a body ds r) =
     map_sum id (\<lambda>f. [EFunction f]) (convert_function unparse (FunctionDef n a body ds r))"
| "visit unparse convert_class (ClassDef n bs body ds) =
     map_sum id (\<lambda>c. [EClass c]) (convert_class (ClassDef n bs body ds))"
| "visit unparse convert_class (Assign targets rhs) =
     map_sum id (map EVariable) (convert_variables unparse (Assign targets rhs))"
| "visit unparse convert_class (AnnAssign target ann rhs) =
     map_sum id (map EVariable) (convert_variables unparse (AnnAssign target ann rhs))"
| "visit unparse convert_class (AsyncFunctionDef n a body ds r) =
     map_sum id concat (sequence (map (visit unparse convert_class) body))"
| "visit unparse convert_class (OtherStmt body) =
     map_sum id concat (sequence (map (visit unparse convert_class) body))"
| "visit unparse convert_class (Import names) = Inr []"
| "visit unparse convert_class (ImportFrom module names level) = Inr []"

text \<open>\<^verbatim>\<open>get_api_entities\<close> of a module, given as the list of its statements.\<close>

definition get_api_entities ::
  "(expr \<Rightarrow> string) \<Rightarrow> (stmt \<Rightarrow> error + Class) \<Rightarrow> stmt list \<Rightarrow> error + entity list" where
  "get_api_entities unparse convert_class body =
     map_sum id concat (sequence (map (visit unparse convert_class) body))"

subsection \<open>Alias resolution\<close>

text \<open>\<^verbatim>\<open>s.split(c)\<close>, \<^verbatim>\<open>c.join(xs)\<close> and \<^verbatim>\<open>s.replace(c, k)\<close> for a separator of one
  character.\<close>

fun str_split :: "char \<Rightarrow> string \<Rightarrow> string list" where
  "str_split c [] = [[]]"
| "str_split c (x # xs) =
     (if x = c then [] # str_split c xs
      else (case str_split c xs of [] \<Rightarrow> [[x]] | w # ws \<Rightarrow> (x # w) # ws))"

fun str_join :: "string \<Rightarrow> string list \<Rightarrow> string" where
  "str_join sep [] = []"
| "str_join sep [x] = x"
| "str_join sep (x # y # ys) = x @ sep @ str_join sep (y # ys)"

definition str_replace :: "char \<Rightarrow> string \<Rightarrow> string \<Rightarrow> string" where
  "str_replace c k s = concat (map (\<lambda>x. if x = c then k else [x]) s)"

text \<open>
  A package tree as \<^verbatim>\<open>_get_apis\<close> builds it: \<^verbatim>\<open>children\<close> is a dictionary in
  insertion order, and \<^verbatim>\<open>entities\<close> is, before resolution, the list of extracted
  entities and import statements (\<open>raw_entity list\<close>) and afterwards a dictionary from
  names to entities. Each child's \<^verbatim>\<open>parent\<close> is the package that holds it, so the
  \<^verbatim>\<open>full_name\<close> of a package's parent is handed down the recursion (\<open>None\<close> at a
  root, whose \<^verbatim>\<open>parent\<close> is \<^verbatim>\<open>None\<close>).
\<close>

datatype 'e package = Package
  (pkg_name: string)
  (children: "(string \<times> 'e package) list")
  (entities: 'e)

datatype raw_entity =
    Entity entity
  | RawImport "import_alias list"
  | RawImportFrom "string option" "import_alias list" nat

text \<open>\<^verbatim>\<open>name.asname if name.asname else name.name\<close>: an empty string is false.\<close>

definition bound_name :: "import_alias \<Rightarrow> string" where
  "bound_name n = (case asname n of None \<Rightarrow> alias_name n
                   | Some a \<Rightarrow> if a = [] then alias_name n else a)"

text \<open>
  \<^verbatim>\<open>full_module_name\<close> of an \<^verbatim>\<open>ImportFrom\<close>: \<^verbatim>\<open>entity.module\<close> (which may be
  \<^verbatim>\<open>None\<close>) for an absolute import; for a relative one it is built from
  \<^verbatim>\<open>package.parent.full_name\<close>, and reading that attribute of \<^verbatim>\<open>None\<close> raises.
\<close>

definition full_module_name :: "string option \<Rightarrow> string option \<Rightarrow> nat \<Rightarrow> error + string option" where
  "full_module_name parent_full_name module level =
     (if level = 0 then Inr module
      else case parent_full_name of
        None \<Rightarrow> Inl (AttributeError ''full_name'')
      | Some pfn \<Rightarrow>
          if level = 1 then Inr (Some (pfn @ (case module of None \<Rightarrow> [] | Some m \<Rightarrow> ''.'' @ m)))
          else Inr (Some (str_join ''.'' (slice_to (str_split CHR ''.'' pfn) (- int level + 1)
                                          @ (case module of None \<Rightarrow> [] | Some m \<Rightarrow> [m])))))"

text \<open>
  The loop over the names of one \<^verbatim>\<open>ImportFrom\<close>; the state is the pair of
  \<^verbatim>\<open>new_entities\<close> and \<^verbatim>\<open>wildcard_alias.full_aliases\<close>. \<^verbatim>\<open>None + "."\<close> raises.
\<close>

fun import_from_names ::
  "string option \<Rightarrow> import_alias list \<Rightarrow> entity list \<times> string list \<Rightarrow> error + entity list \<times> string list" where
  "import_from_names fmn [] st = Inr st"
| "import_from_names fmn (n # ns) (new_entities, wild) =
     (case fmn of
        None \<Rightarrow> Inl (TypeError ''unsupported operand type(s) for +'')
      | Some m \<Rightarrow>
          (let full_alias = m @ ''.'' @ alias_name n in
           if alias_name n = ''*'' then import_from_names fmn ns (new_entities, wild @ [full_alias])
           else import_from_names fmn ns (new_entities @ [EAlias (bound_name n) full_alias], wild)))"

text \<open>The loop over \<^verbatim>\<open>package.entities\<close>, with the same state.\<close>

fun resolve_entities ::
  "string option \<Rightarrow> raw_entity list \<Rightarrow> entity list \<times> string list \<Rightarrow> error + entity list \<times> string list" where
  "resolve_entities pfn [] st = Inr st"
| "resolve_entities pfn (Entity e # es) st = resolve_entities pfn es st"
| "resolve_entities pfn (RawImport names # es) (new_entities, wild) =
     resolve_entities pfn es
       (new_entities @ map (\<lambda>n. EAlias (bound_name n) (alias_name n)) names, wild)"
| "resolve_entities pfn (RawImportFrom module names level # es) st =
     (case full_module_name pfn module level of
        Inl e \<Rightarrow> Inl e
      | Inr fmn \<Rightarrow>
          (case import_from_names fmn names st of
             Inl e \<Rightarrow> Inl e
           | Inr st' \<Rightarrow> resolve_entities pfn es st'))"

text \<open>The dictionary filled from \<^verbatim>\<open>new_entities\<close>: the first entity of a name stays.\<close>

fun first_come :: "entity list \<Rightarrow> (string \<times> entity) list \<Rightarrow> (string \<times> entity) list" where
  "first_come [] d = d"
| "first_come (e # es) d =
     (if entity_name e \<in> fst ` set d then first_come es d
      else first_come es (d @ [(entity_name e, e)]))"

text \<open>The entities of one package, after its children: everything but the last two lines.\<close>

definition own_entities :: "string option \<Rightarrow> raw_entity list \<Rightarrow> error + (string \<times> entity) list" where
  "own_entities pfn raw =
     (case resolve_entities pfn raw
             (concat (map (\<lambda>r. case r of Entity e \<Rightarrow> [e] | _ \<Rightarrow> []) raw), []) of
        Inl e \<Rightarrow> Inl e
      | Inr (new_entities, wild) \<Rightarrow>
          Inr (first_come
                 (new_entities @ (if length wild > 0 then [EWildcardAlias ''*'' wild] else [])) []))"

definition full_name_under :: "string option \<Rightarrow> string \<Rightarrow> string" where
  "full_name_under parent_full_name n =
     (case parent_full_name of None \<Rightarrow> n | Some pfn \<Rightarrow> pfn @ ''.'' @ n)"

fun resolve_import_from ::
  "string option \<Rightarrow> raw_entity list package \<Rightarrow> error + (string \<times> entity) list package" where
  "resolve_import_from pfn (Package n chs raw) =
     (case sequence (map (\<lambda>kc. map_sum id (Pair (fst kc))
                            (resolve_import_from (Some (full_name_under pfn n)) (snd kc))) chs) of
        Inl e \<Rightarrow> Inl e
      | Inr chs' \<Rightarrow>
          (case own_entities pfn raw of
             Inl e \<Rightarrow> Inl e
           | Inr d \<Rightarrow>
               (case map_of chs' ''__init__'' of
                  None \<Rightarrow> Inr (Package n chs' d)
                | Some init \<Rightarrow> Inr (Package n chs' (entities init)))))"

section \<open>Reference resolver (py4a/api/entity.py, class Package)\<close>

text \<open>
  \<^verbatim>\<open>Package.__getitem__\<close> copies an object and assigns to the copy's attributes, so
  the objects live in a store: an address is an index into the list of all objects, and
  a package holds the addresses of its parent, its children and its entities. Creating
  an object appends it to the store.
\<close>

type_synonym addr = nat

datatype obj =
    OFunction Function
  | OClass Class
  | OVariable Variable
  | OAlias string string
  | OWildcardAlias string "string list"
  | OPackage string "addr option" "(string \<times> addr) list" "(string \<times> addr) list"

type_synonym store = "obj list"

definition lookup :: "store \<Rightarrow> addr \<Rightarrow> obj option" where
  "lookup h a = (if a < length h then Some (h ! a) else None)"

fun obj_name :: "obj \<Rightarrow> string" where
  "obj_name (OFunction f) = fn_name f"
| "obj_name (OClass c) = cls_name c"
| "obj_name (OVariable v) = var_name v"
| "obj_name (OAlias n t) = n"
| "obj_name (OWildcardAlias n ts) = n"
| "obj_name (OPackage n par chs ents) = n"

text \<open>
  The wildcard branch of \<^verbatim>\<open>__getitem__\<close>, three statements:
  \<^verbatim>\<open>res = deepcopy(res.entities["*"])\<close> creates a new object,
  \<^verbatim>\<open>res.name = res.name.replace("*", k)\<close> and
  \<^verbatim>\<open>res.full_aliases = [x.replace("*", k) for x in res.full_aliases]\<close> assign to it.
  An object of another class has no \<^verbatim>\<open>full_aliases\<close>: the third statement raises,
  and the copy it was to change is unreachable; the model then leaves the store as it is.
\<close>

definition wildcard_copy :: "store \<Rightarrow> addr \<Rightarrow> string \<Rightarrow> (error + addr) \<times> store" where
  "wildcard_copy h w k =
     (case lookup h w of
        None \<Rightarrow> (Inl InvalidReference, h)
      | Some (OWildcardAlias n ts) \<Rightarrow>
          (let res = length h;
               h1 = h @ [OWildcardAlias n ts];
               h2 = h1[res := OWildcardAlias (str_replace CHR ''*'' k n) ts];
               h3 = h2[res := OWildcardAlias (str_replace CHR ''*'' k n)
                                (map (str_replace CHR ''*'' k) ts)]
           in (Inr res, h3))
      | Some _ \<Rightarrow> (Inl (AttributeError ''full_aliases''), h))"

text \<open>
  The loop of \<^verbatim>\<open>__getitem__\<close> over \<^verbatim>\<open>keys[1:]\<close>: \<open>res\<close> is the current object and the
  last argument the keys still to come, so \<^verbatim>\<open>i == len(keys[1:]) - 1\<close> says that none
  is left after \<open>k\<close>.
\<close>

fun getitem_loop :: "store \<Rightarrow> string \<Rightarrow> addr \<Rightarrow> string list \<Rightarrow> (error + addr) \<times> store" where
  "getitem_loop h key res [] = (Inr res, h)"
| "getitem_loop h key res (k # ks) =
     (case lookup h res of
        None \<Rightarrow> (Inl InvalidReference, h)
      | Some (OPackage n par chs ents) \<Rightarrow>
          (case map_of chs k of
             Some child \<Rightarrow> getitem_loop h key child ks
           | None \<Rightarrow>
               (case map_of ents k of
                  Some e \<Rightarrow> getitem_loop h key e ks
                | None \<Rightarrow>
                    (case map_of ents ''*'' of
                       Some w \<Rightarrow>
                         if ks = [] then wildcard_copy h w k
                         else (Inl (KeyError (key @ '' does not correspond to an API entity'')), h)
                     | None \<Rightarrow>
                         (Inl (KeyError (key @ '' does not correspond to an API entity'')), h))))
      | Some _ \<Rightarrow> (Inl (KeyError (key @ '' does not correspond to an API entity'')), h))"

definition getitem :: "store \<Rightarrow> addr \<Rightarrow> string \<Rightarrow> (error + addr) \<times> store" where
  "getitem h self key =
     (case lookup h self of
        None \<Rightarrow> (Inl InvalidReference, h)
      | Some this \<Rightarrow>
          (case str_split CHR ''.'' key of
             [] \<Rightarrow> (Inl (IndexError ''list index out of range''), h)
           | k0 # ks \<Rightarrow>
               if k0 \<noteq> obj_name this
               then (Inl (KeyError (key @ '' does not belong to this package'')), h)
               else getitem_loop h key self ks))"

text \<open>
  The loop of \<^verbatim>\<open>Package.get\<close> over the aliases. \<open>recur\<close> is the recursive call
  \<^verbatim>\<open>get(alias, top_levels, prev_aliases + [alias])\<close> on a package; it returns
  \<open>None\<close> when the recursion does not come back. \<^verbatim>\<open>except KeyError: continue\<close>
  catches a KeyError of the call and nothing else.
\<close>

fun try_aliases ::
  "(store \<Rightarrow> addr \<Rightarrow> string \<Rightarrow> string list \<Rightarrow> ((error + addr) \<times> store) option)
   \<Rightarrow> store \<Rightarrow> addr \<Rightarrow> string \<Rightarrow> (string \<times> addr) list \<Rightarrow> string list \<Rightarrow> string list
   \<Rightarrow> ((error + addr) \<times> store) option" where
  "try_aliases recur h self key top_levels prev_aliases [] =
     Some (Inl (KeyError (key @ '' cannot be resolved in this package'')), h)"
| "try_aliases recur h self key top_levels prev_aliases (alias # aliases) =
     (if alias \<in> set prev_aliases then Some (Inl (KeyError (key @ '' is a cyclic reference'')), h)
      else case lookup h self of
        None \<Rightarrow> Some (Inl InvalidReference, h)
      | Some this \<Rightarrow>
          (case str_split CHR ''.'' alias of
             [] \<Rightarrow> Some (Inl (IndexError ''list index out of range''), h)
           | top_level # _ \<Rightarrow>
               (case (if top_level = obj_name this then Some self
                      else map_of top_levels top_level) of
                  None \<Rightarrow> try_aliases recur h self key top_levels prev_aliases aliases
                | Some target \<Rightarrow>
                    (case recur h target alias (prev_aliases @ [alias]) of
                       None \<Rightarrow> None
                     | Some (Inl (KeyError msg), h') \<Rightarrow>
                         try_aliases recur h' self key top_levels prev_aliases aliases
                     | Some r \<Rightarrow> Some r))))"

text \<open>
  \<^verbatim>\<open>Package.get\<close>. The first argument bounds the depth of the recursion: \<open>None\<close> says
  that the bound was reached.
\<close>

primrec get ::
  "nat \<Rightarrow> store \<Rightarrow> addr \<Rightarrow> string \<Rightarrow> (string \<times> addr) list \<Rightarrow> string list
   \<Rightarrow> ((error + addr) \<times> store) option" where
  "get 0 h self key top_levels prev_aliases = None"
| "get (Suc n) h self key top_levels prev_aliases =
     (case getitem h self key of
        (Inl e, h1) \<Rightarrow> Some (Inl e, h1)
      | (Inr res, h1) \<Rightarrow>
          (case lookup h1 res of
             None \<Rightarrow> Some (Inl InvalidReference, h1)
           | Some (OAlias nm full_alias) \<Rightarrow>
               try_aliases (\<lambda>h' p k prev. get n h' p k top_levels prev)
                 h1 self key top_levels prev_aliases [full_alias]
           | Some (OWildcardAlias nm full_aliases) \<Rightarrow>
               try_aliases (\<lambda>h' p k prev. get n h' p k top_levels prev)
                 h1 self key top_levels prev_aliases full_aliases
           | Some _ \<Rightarrow> Some (Inr res, h1)))"

section \<open>Well-formed stores\<close>

text \<open>
  In Python every reference leads to an object: a store is \<open>closed\<close> when every address
  a package holds is an address of the store.
\<close>

definition closed :: "store \<Rightarrow> bool" where
  "closed h =
     (\<forall>ob \<in> set h. case ob of
        OPackage n par chs ents \<Rightarrow>
          (\<forall>p \<in> set_option par. p < length h)
          \<and> (\<forall>a \<in> snd ` set chs. a < length h)
          \<and> (\<forall>a \<in> snd ` set ents. a < length h)
      | _ \<Rightarrow> True)"

text \<open>The targets of the aliases of a store, and those of its wildcard aliases.\<close>

fun obj_targets :: "obj \<Rightarrow> string set" where
  "obj_targets (OAlias n t) = {t}"
| "obj_targets (OWildcardAlias n ts) = set ts"
| "obj_targets _ = {}"

fun obj_wildcards :: "obj \<Rightarrow> string set" where
  "obj_wildcards (OWildcardAlias n ts) = set ts"
| "obj_wildcards _ = {}"

definition alias_targets :: "store \<Rightarrow> string set" where
  "alias_targets h = (\<Union>ob \<in> set h. obj_targets ob)"

definition wildcard_targets :: "store \<Rightarrow> string set" where
  "wildcard_targets h = (\<Union>ob \<in> set h. obj_wildcards ob)"

definition last_segment :: "string \<Rightarrow> string" where
  "last_segment s = last (str_split CHR ''.'' s)"

text \<open>
  The alias resolver builds every wildcard target as a module name followed by
  \<^verbatim>\<open>".*"\<close>: its last segment is \<^verbatim>\<open>*\<close>.
\<close>

definition wildcards_end_in_star :: "store \<Rightarrow> bool" where
  "wildcards_end_in_star h = (\<forall>t \<in> wildcard_targets h. last_segment t = ''*'')"

text \<open>
  Every alias a lookup of \<open>key\<close> can come to follow: a stored target, or a wildcard
  target whose \<^verbatim>\<open>*\<close> is replaced by the last segment of \<open>key\<close> or of a stored target.
\<close>

definition segments :: "store \<Rightarrow> string \<Rightarrow> string set" where
  "segments h key = insert (last_segment key) (last_segment ` alias_targets h)"

definition alias_universe :: "store \<Rightarrow> string \<Rightarrow> string set" where
  "alias_universe h key =
     alias_targets h
     \<union> (\<lambda>(t, k). str_replace CHR ''*'' k t) ` (wildcard_targets h \<times> segments h key)"

text \<open>
  What the wildcard branch of \<^verbatim>\<open>__getitem__\<close> does to a store \<open>h\<close> that extends
  \<open>h0\<close>: the result \<open>a\<close> is the address just past \<open>h\<close>, and \<open>h'\<close> is \<open>h\<close> with one
  more object, the copy of a wildcard alias stored in \<open>h0\<close> with \<^verbatim>\<open>*\<close> replaced by \<open>k\<close>
  in its name and in its targets.
\<close>

definition fresh_wildcard :: "store \<Rightarrow> store \<Rightarrow> string \<Rightarrow> addr \<Rightarrow> store \<Rightarrow> bool" where
  "fresh_wildcard h0 h k a h' =
     (\<exists>w n ts. w < length h0 \<and> h0 ! w = OWildcardAlias n ts \<and> a = length h
        \<and> h' = h @ [OWildcardAlias (str_replace CHR ''*'' k n) (map (str_replace CHR ''*'' k) ts)])"

section \<open>Notions used in the statements\<close>

text \<open>
  The value recorded for the element at position \<open>i\<close> of a tuple target: the text of
  the element at that position of a tuple or list literal on the right, and otherwise the
  indexed access \<^verbatim>\<open>rhs[i]\<close>.
\<close>

definition expected_element_value :: "(expr \<Rightarrow> string) \<Rightarrow> expr \<Rightarrow> nat \<Rightarrow> string" where
  "expected_element_value unparse rhs i =
     (case literal_elts rhs of
        Some rhs_elts \<Rightarrow> unparse (rhs_elts ! i)
      | None \<Rightarrow> unparse rhs @ ''['' @ str_nat i @ '']'')"

section \<open>Example inputs\<close>

text \<open>\<open>show_expr\<close> stands in for \<^verbatim>\<open>ast.unparse\<close> on the expressions of the examples.\<close>

fun show_expr :: "expr \<Rightarrow> string" where
  "show_expr (Name ident) = ident"
| "show_expr (OtherExpr src) = src"
| "show_expr (Attribute e a) = show_expr e @ ''.'' @ a"
| "show_expr (Tuple es) = ''('' @ str_join '', '' (map show_expr es) @ '')''"
| "show_expr (ListExpr es) = ''['' @ str_join '', '' (map show_expr es) @ '']''"

text \<open>\<^verbatim>\<open>def f(a, b, c=1)\<close>, \<^verbatim>\<open>def f()\<close>, \<^verbatim>\<open>def f(a, b=1)\<close> and \<^verbatim>\<open>def f(a, b)\<close>.\<close>

definition f_a_b_c1 :: Function where
  "f_a_b_c1 =
     \<lparr>fn_name = ''f'',
      fn_args = [mk_Argument ''a'' None None False False False False,
                 mk_Argument ''b'' None None False False False False,
                 mk_Argument ''c'' None (Some ''1'') False False False False],
      returns = None, decorators = [], is_async = False\<rparr>"

definition f_noargs :: Function where
  "f_noargs = \<lparr>fn_name = ''f'', fn_args = [], returns = None, decorators = [], is_async = False\<rparr>"

definition f_a_b1 :: Function where
  "f_a_b1 =
     \<lparr>fn_name = ''f'',
      fn_args = [mk_Argument ''a'' None None False False False False,
                 mk_Argument ''b'' None (Some ''1'') False False False False],
      returns = None, decorators = [], is_async = False\<rparr>"

definition f_a_b :: Function where
  "f_a_b =
     \<lparr>fn_name = ''f'',
      fn_args = [mk_Argument ''a'' None None False False False False,
                 mk_Argument ''b'' None None False False False False],
      returns = None, decorators = [], is_async = False\<rparr>"

text \<open>The call shapes \<^verbatim>\<open>f(*, *, a=*)\<close> and \<^verbatim>\<open>f(**)\<close>.\<close>

definition call_2_pos_kw_a :: Call where
  "call_2_pos_kw_a =
     \<lparr>call_name = ''f'', call_args = 2, kwargs = [''a''], starargs = False,
      additional_kwargs = False\<rparr>"

definition call_spread_kw :: Call where
  "call_spread_kw =
     \<lparr>call_name = ''f'', call_args = 0, kwargs = [], starargs = False,
      additional_kwargs = True\<rparr>"

text \<open>
  The call shape \<^verbatim>\<open>f(*)\<close>, and a \<^verbatim>\<open>Call\<close> whose number of positional arguments
  has 4301 decimal digits.
\<close>

definition call_1_pos :: Call where
  "call_1_pos =
     \<lparr>call_name = ''f'', call_args = 1, kwargs = [], starargs = False,
      additional_kwargs = False\<rparr>"


text \<open>The module \<^verbatim>\<open>async def f(): pass\<close> and its synchronous twin.\<close>

definition no_arguments :: arguments where
  "no_arguments = Arguments [] [] None [] [] None []"

definition async_def_f :: stmt where
  "async_def_f = AsyncFunctionDef ''f'' no_arguments [OtherStmt []] [] None"

definition def_f :: stmt where
  "def_f = FunctionDef ''f'' no_arguments [OtherStmt []] [] None"

text \<open>
  A package directory \<^verbatim>\<open>simple\<close> with the files \<^verbatim>\<open>__init__.py\<close> (which holds
  \<^verbatim>\<open>def f(): ...\<close> and \<^verbatim>\<open>from .lib2 import func2\<close>) and \<^verbatim>\<open>lib2.py\<close> (which holds
  \<^verbatim>\<open>def func2(): ...\<close>), as \<^verbatim>\<open>_get_apis\<close> returns it.
\<close>

definition simple_pkg :: "raw_entity list package" where
  "simple_pkg =
     Package ''simple''
       [(''__init__'', Package ''__init__'' []
           [Entity (EFunction f_noargs), RawImportFrom (Some ''lib2'') [Alias ''func2'' None] 1]),
        (''lib2'', Package ''lib2'' []
           [Entity (EFunction (f_noargs\<lparr>fn_name := ''func2''\<rparr>))])]
       []"

text \<open>
  A package \<^verbatim>\<open>P\<close> whose entities are the aliases \<^verbatim>\<open>A\<close> of \<^verbatim>\<open>P.B\<close> and \<^verbatim>\<open>B\<close> of
  \<^verbatim>\<open>P.A\<close>.
\<close>

definition cyclic_store :: store where
  "cyclic_store =
     [OPackage ''P'' None [] [(''A'', 1), (''B'', 2)], OAlias ''A'' ''P.B'', OAlias ''B'' ''P.A'']"

text \<open>
  A package \<^verbatim>\<open>P\<close> whose only entity is \<^verbatim>\<open>WildcardAlias(["Q.*"])\<close> under the name
  \<^verbatim>\<open>*\<close>, and a package \<^verbatim>\<open>Q\<close> that holds the function \<^verbatim>\<open>foo\<close>.
\<close>

definition wildcard_store :: store where
  "wildcard_store =
     [OPackage ''P'' None [] [(''*'', 1)], OWildcardAlias ''*'' [''Q.*''],
      OPackage ''Q'' None [] [(''foo'', 3)], OFunction (f_noargs\<lparr>fn_name := ''foo''\<rparr>)]"

definition wildcard_top_levels :: "(string \<times> addr) list" where
  "wildcard_top_levels = [(''P'', 0), (''Q'', 2)]"

text \<open>
  A package \<^verbatim>\<open>P\<close> whose wildcard alias has the target \<^verbatim>\<open>P.a*\<close>, which no import
  statement yields: its last segment is not \<^verbatim>\<open>*\<close>.
\<close>

definition star_suffix_store :: store where
  "star_suffix_store = [OPackage ''P'' None [] [(''*'', 1)], OWildcardAlias ''*'' [''P.a*'']]"

section \<open>The signature matcher\<close>

lemmas match_defs = match_def num_args_def format_int_def within_str_digits_def
  cand_posargs_def cand_kwargs_def posonly_args_def
  allow_additional_posargs_def allow_additional_kwargs_def slice_to_def mk_Argument_def

text \<open>
  C4. The call shape \<^verbatim>\<open>f(*, *, a=*)\<close> against \<^verbatim>\<open>def f(a, b, c=1)\<close> is a mismatch: the
  two positional arguments fill \<^verbatim>\<open>a\<close> and \<^verbatim>\<open>b\<close>, so the keyword \<^verbatim>\<open>a\<close> is no longer
  among the keyword candidates, and the function takes no \<^verbatim>\<open>**kwargs\<close>.
\<close>

theorem match_two_positional_keyword_a_mismatch:
  "match max_str_digits call_2_pos_kw_a f_a_b_c1 False
     = Inr (False, ''a is not allowed as keyword argument'')"
  by (simp add: match_defs call_2_pos_kw_a_def f_a_b_c1_def)

text \<open>
  C5. The call shape \<^verbatim>\<open>f(**)\<close> matches \<^verbatim>\<open>def f(a, b, c=1)\<close>, whose required
  parameters the spread may fill, and it matches \<^verbatim>\<open>def f()\<close>.
\<close>

theorem match_keyword_spread_matches:
  "match max_str_digits call_spread_kw f_a_b_c1 False = Inr (True, [])
   \<and> match max_str_digits call_spread_kw f_noargs False = Inr (True, [])"
  by (simp add: match_defs call_spread_kw_def f_a_b_c1_def f_noargs_def)










lemma call_1_pos_message:
  "match 4300 call_1_pos f_noargs False
     = Inr (False, ''f() takes up to 0 positional arguments but 1 are given'')"
  by (simp add: match_defs call_1_pos_def f_noargs_def str_int_def str_nat.simps digit_char_def)



section \<open>Function.get_arg\<close>

lemma find_arg_not_None: "find_arg as s \<noteq> Inr None"
  by (induction as) auto

lemma find_arg_absent:
  "\<forall>a \<in> set as. arg_name a \<noteq> s \<Longrightarrow>
   find_arg as s = Inl (TypeError ''exceptions must derive from BaseException'')"
  by (induction as) auto

lemma find_arg_present:
  "\<exists>a \<in> set as. arg_name a = s \<Longrightarrow>
   \<exists>pre a post. as = pre @ a # post \<and> arg_name a = s \<and> (\<forall>b \<in> set pre. arg_name b \<noteq> s)
      \<and> find_arg as s = Inr (Some a)"
proof (induction as)
  case Nil
  then show ?case by simp
next
  case (Cons x xs)
  show ?case
  proof (cases "arg_name x = s")
    case True
    then have "x # xs = [] @ x # xs \<and> arg_name x = s \<and> (\<forall>b \<in> set []. arg_name b \<noteq> s)
        \<and> find_arg (x # xs) s = Inr (Some x)"
      by simp
    then show ?thesis by blast
  next
    case False
    with Cons.prems have "\<exists>a \<in> set xs. arg_name a = s" by auto
    from Cons.IH[OF this] obtain pre a post where
      h: "xs = pre @ a # post" "arg_name a = s" "\<forall>b \<in> set pre. arg_name b \<noteq> s"
         "find_arg xs s = Inr (Some a)"
      by blast
    with False have "x # xs = (x # pre) @ a # post \<and> arg_name a = s
        \<and> (\<forall>b \<in> set (x # pre). arg_name b \<noteq> s) \<and> find_arg (x # xs) s = Inr (Some a)"
      by simp
    then show ?thesis by blast
  qed
qed

text \<open>
  C10. \<^verbatim>\<open>get_arg\<close> never returns \<^verbatim>\<open>None\<close>. For a name that no argument bears it
  raises the TypeError of \<^verbatim>\<open>raise None\<close>; for a name that some argument bears it returns
  the first argument of that name.
\<close>

theorem get_arg_raises_or_returns_first:
  "get_arg f s \<noteq> Inr None
   \<and> ((\<forall>a \<in> set (fn_args f). arg_name a \<noteq> s) \<longrightarrow>
        get_arg f s = Inl (TypeError ''exceptions must derive from BaseException''))
   \<and> ((\<exists>a \<in> set (fn_args f). arg_name a = s) \<longrightarrow>
        (\<exists>pre a post. fn_args f = pre @ a # post \<and> arg_name a = s
           \<and> (\<forall>b \<in> set pre. arg_name b \<noteq> s) \<and> get_arg f s = Inr (Some a)))"
  unfolding get_arg_def
  using find_arg_not_None find_arg_absent find_arg_present by blast

theorem get_arg_raises_or_returns_first_witness:
  "get_arg f_a_b_c1 ''z'' = Inl (TypeError ''exceptions must derive from BaseException'')
   \<and> (\<exists>a. arg_name a = ''b'' \<and> get_arg f_a_b_c1 ''b'' = Inr (Some a))"
proof -
  have absent: "\<forall>a \<in> set (fn_args f_a_b_c1). arg_name a \<noteq> ''z''"
    by (simp add: f_a_b_c1_def mk_Argument_def)
  have present: "\<exists>a \<in> set (fn_args f_a_b_c1). arg_name a = ''b''"
    by (simp add: f_a_b_c1_def mk_Argument_def)
  from get_arg_raises_or_returns_first[of f_a_b_c1 "''z''"] absent
       get_arg_raises_or_returns_first[of f_a_b_c1 "''b''"] present
  show ?thesis by blast
qed

section \<open>The diff engine\<close>

lemmas diff_defs = diff_function_def common_param_diffs_def p_all_def opt_def p2def_def
  p2pos_def mk_Argument_def

text \<open>
  A parameter on both sides that had a default and has none any more gets a diff of the
  type \<^verbatim>\<open>ParamDefValAdd\<close>, whatever the two functions.
\<close>

lemma common_param_diffs_lost_default:
  "p \<in> opt old \<Longrightarrow> p \<notin> opt new \<Longrightarrow>
   mk_Diff ParamDefValAdd full_name (Some p) (p2def old p) None
      \<in> set (common_param_diffs old new full_name p)"
  by (simp add: common_param_diffs_def)

lemma diff_function_lost_default:
  assumes "p \<in> set (map arg_name (fn_args old))" "p \<in> set (map arg_name (fn_args new))"
    "p \<in> opt old" "p \<notin> opt new"
  shows "mk_Diff ParamDefValAdd full_name (Some p) (p2def old p) None
           \<in> set (diff_function old new full_name)"
proof -
  from assms(1,2) have "p \<in> set (filter (\<lambda>p. p \<in> set (p_all new)) (p_all old))"
    by (simp add: p_all_def)
  with common_param_diffs_lost_default[OF assms(3,4)]
  have "mk_Diff ParamDefValAdd full_name (Some p) (p2def old p) None
      \<in> set (concat (map (common_param_diffs old new full_name)
         (filter (\<lambda>p. p \<in> set (p_all new)) (p_all old))))"
    by (simp del: set_filter) blast
  then show ?thesis unfolding diff_function_def by simp
qed

text \<open>
  C1. Diffing old \<^verbatim>\<open>def f(a, b=1)\<close> against new \<^verbatim>\<open>def f(a, b)\<close>, where \<^verbatim>\<open>b\<close> loses
  its default, \<^verbatim>\<open>diff_function\<close> returns one diff for \<^verbatim>\<open>b\<close>, of the type
  \<^verbatim>\<open>ParamDefValAdd\<close> (default value addition), with the old default as its old value
  and no new value: the two branches of the source carry each other's type.
\<close>

theorem diff_function_removed_default_typed_addition:
  "diff_function f_a_b1 f_a_b ''f'' = [mk_Diff ParamDefValAdd ''f'' (Some ''b'') (Some ''1'') None]"
  by (simp add: diff_defs f_a_b1_def f_a_b_def)

section \<open>The static extractor\<close>

text \<open>
  Visiting an asynchronous function definition is visiting the statements of its body.
\<close>

lemma visit_async_as_body:
  "visit unparse convert_class (AsyncFunctionDef n a body ds r)
     = visit unparse convert_class (OtherStmt body)"
  by simp

text \<open>
  C6. For the module \<^verbatim>\<open>async def f(): ...\<close> the extractor emits nothing: the visitor
  has no \<^verbatim>\<open>visit_AsyncFunctionDef\<close>, so the definition is handled by
  \<^verbatim>\<open>generic_visit\<close>. For the synchronous twin it emits the function, and
  \<^verbatim>\<open>_convert_function\<close>, applied to the asynchronous definition, does return the
  function with the async flag set.
\<close>

theorem async_function_definition_not_emitted:
  "get_api_entities unparse convert_class [async_def_f] = Inr []
   \<and> get_api_entities unparse convert_class [def_f] = Inr [EFunction f_noargs]
   \<and> convert_function unparse async_def_f = Inr (f_noargs\<lparr>is_async := True\<rparr>)"
  by (simp add: get_api_entities_def async_def_f_def def_f_def no_arguments_def
      convert_arguments_def f_noargs_def)

lemma index_in_range: "i < length xs \<Longrightarrow> index xs (int i) = Inr (xs ! i)"
  by (simp add: index_def)

lemma convert_elts_names:
  "(case literal_elts rhs of Some rs \<Rightarrow> i + length ids \<le> length rs | None \<Rightarrow> True) \<Longrightarrow>
   convert_elts unparse rhs i (map Name ids) =
     Inr (map (\<lambda>(j, ident). \<lparr>var_name = ident, var_type = None,
                               var_value = Some (expected_element_value unparse rhs j)\<rparr>)
            (enumerate i ids))"
proof (induction ids arbitrary: i)
  case Nil
  then show ?case by simp
next
  case (Cons x xs)
  have rest: "convert_elts unparse rhs (Suc i) (map Name xs) =
     Inr (map (\<lambda>(j, ident). \<lparr>var_name = ident, var_type = None,
                               var_value = Some (expected_element_value unparse rhs j)\<rparr>)
            (enumerate (Suc i) xs))"
    using Cons.prems by (intro Cons.IH) (auto split: option.splits)
  show ?case
  proof (cases "literal_elts rhs")
    case None
    then show ?thesis using rest by (simp add: expected_element_value_def)
  next
    case (Some rs)
    with Cons.prems have "i < length rs" by simp
    then show ?thesis using rest Some by (simp add: expected_element_value_def index_in_range)
  qed
qed

text \<open>
  C7, as amended. For an assignment whose target is a tuple of names,
  \<^verbatim>\<open>_convert_variables\<close> returns one Variable per element, in order, without a type:
  when the right-hand side is a tuple or list literal with at least as many elements as
  the target, the value of the element at position \<open>i\<close> is the text of the literal's
  element at \<open>i\<close>; when the right-hand side is no such literal, it is the text of
  the right-hand side followed by \<^verbatim>\<open>[i]\<close>. (A list target yields no Variable.)
\<close>

theorem convert_variables_tuple_of_names:
  "(case literal_elts rhs of Some rhs_elts \<Rightarrow> length ids \<le> length rhs_elts | None \<Rightarrow> True) \<Longrightarrow>
   convert_variables unparse (Assign [Tuple (map Name ids)] rhs) =
     Inr (map (\<lambda>(i, ident). \<lparr>var_name = ident, var_type = None,
                               var_value = Some (expected_element_value unparse rhs i)\<rparr>)
            (enumerate 0 ids))"
proof -
  assume "case literal_elts rhs of Some rhs_elts \<Rightarrow> length ids \<le> length rhs_elts | None \<Rightarrow> True"
  then have "case literal_elts rhs of Some rs \<Rightarrow> 0 + length ids \<le> length rs | None \<Rightarrow> True"
    by (simp split: option.splits)
  from convert_elts_names[OF this] show ?thesis by simp
qed

theorem convert_variables_tuple_of_names_witness:
  "convert_variables show_expr (Assign [Tuple (map Name [''a'', ''b''])] (Name ''c'')) =
     Inr [\<lparr>var_name = ''a'', var_type = None, var_value = Some ''c[0]''\<rparr>,
          \<lparr>var_name = ''b'', var_type = None, var_value = Some ''c[1]''\<rparr>]
   \<and> convert_variables show_expr
        (Assign [Tuple (map Name [''a'', ''b''])]
           (ListExpr [OtherExpr ''1'', OtherExpr ''2'', OtherExpr ''3''])) =
     Inr [\<lparr>var_name = ''a'', var_type = None, var_value = Some ''1''\<rparr>,
          \<lparr>var_name = ''b'', var_type = None, var_value = Some ''2''\<rparr>]"
proof -
  have no_literal: "case literal_elts (Name ''c'') of
      Some rhs_elts \<Rightarrow> length [''a'', ''b''] \<le> length rhs_elts | None \<Rightarrow> True"
    by simp
  have literal: "case literal_elts (ListExpr [OtherExpr ''1'', OtherExpr ''2'', OtherExpr ''3'']) of
      Some rhs_elts \<Rightarrow> length [''a'', ''b''] \<le> length rhs_elts | None \<Rightarrow> True"
    by simp
  show ?thesis
    unfolding convert_variables_tuple_of_names[OF no_literal]
      convert_variables_tuple_of_names[OF literal]
    by (simp add: expected_element_value_def str_nat.simps digit_char_def)
qed

text \<open>
  The claim as stated fails for a list target: \<^verbatim>\<open>[a, b] = c\<close> yields no Variable,
  since \<^verbatim>\<open>_convert_variables\<close> tests the target for \<^verbatim>\<open>ast.Tuple\<close> only.
\<close>

theorem convert_variables_list_target_ignored:
  "convert_variables show_expr (Assign [ListExpr [Name ''a'', Name ''b'']] (Name ''c'')) = Inr []"
  by simp

text \<open>A literal shorter than the target, as in \<^verbatim>\<open>a, b = (1,)\<close>, raises IndexError.\<close>

lemma convert_variables_short_literal:
  "convert_variables show_expr (Assign [Tuple [Name ''a'', Name ''b'']] (Tuple [OtherExpr ''1'']))
     = Inl (IndexError ''list index out of range'')"
  by (simp add: index_def)

section \<open>Alias resolution\<close>

lemma sequence_Cons:
  "sequence (map f (x # xs)) = Inr ys \<Longrightarrow>
   \<exists>v vs. f x = Inr v \<and> sequence (map f xs) = Inr vs \<and> ys = v # vs"
  by (auto split: sum.splits)

lemma resolved_children_keys:
  "sequence (map (\<lambda>kc. map_sum id (Pair (fst kc)) (g (snd kc))) chs) = Inr chs' \<Longrightarrow>
   map fst chs' = map fst chs"
proof (induction chs arbitrary: chs')
  case Nil
  then show ?case by simp
next
  case (Cons x xs)
  from sequence_Cons[OF Cons.prems] obtain v vs where
    v: "map_sum id (Pair (fst x)) (g (snd x)) = Inr v"
       "sequence (map (\<lambda>kc. map_sum id (Pair (fst kc)) (g (snd kc))) xs) = Inr vs" "chs' = v # vs"
    by blast
  from v(1) have "fst v = fst x" by (cases "g (snd x)") auto
  with Cons.IH[OF v(2)] v(3) show ?case by simp
qed

lemma resolved_children_lookup:
  "sequence (map (\<lambda>kc. map_sum id (Pair (fst kc)) (g (snd kc))) chs) = Inr chs' \<Longrightarrow>
   map_of chs k = Some c \<Longrightarrow> \<exists>c'. map_of chs' k = Some c' \<and> g c = Inr c'"
proof (induction chs arbitrary: chs')
  case Nil
  then show ?case by simp
next
  case (Cons x xs)
  from sequence_Cons[OF Cons.prems(1)] obtain v vs where
    v: "map_sum id (Pair (fst x)) (g (snd x)) = Inr v"
       "sequence (map (\<lambda>kc. map_sum id (Pair (fst kc)) (g (snd kc))) xs) = Inr vs" "chs' = v # vs"
    by blast
  from v(1) obtain r where r: "g (snd x) = Inr r" "v = (fst x, r)" by (cases "g (snd x)") auto
  show ?case
  proof (cases "fst x = k")
    case True
    with Cons.prems(2) have "snd x = c" by (cases x) auto
    with True r v(3) show ?thesis by simp
  next
    case False
    with Cons.prems(2) have "map_of xs k = Some c" by (cases x) auto
    from Cons.IH[OF v(2) this] False v(3) r show ?thesis by simp
  qed
qed

text \<open>
  C2, as amended. When a package has a child \<^verbatim>\<open>__init__\<close> and resolution succeeds,
  the package's entities are the resolved entities of that child, and the children map
  keeps its keys: \<^verbatim>\<open>__init__\<close> stays a child, now resolved.
\<close>

theorem resolve_import_from_init_entities_child_kept:
  assumes "resolve_import_from pfn p = Inr p'"
    and "map_of (children p) ''__init__'' = Some init"
  shows "\<exists>init'. resolve_import_from (Some (full_name_under pfn (pkg_name p))) init = Inr init'
           \<and> map_of (children p') ''__init__'' = Some init'
           \<and> entities p' = entities init'
           \<and> map fst (children p') = map fst (children p)"
proof -
  obtain n chs raw where p: "p = Package n chs raw" by (cases p)
  let ?g = "resolve_import_from (Some (full_name_under pfn n))"
  from assms(1) p obtain chs' where
    s: "sequence (map (\<lambda>kc. map_sum id (Pair (fst kc)) (?g (snd kc))) chs) = Inr chs'"
    by (auto split: sum.splits)
  from assms(2) p have "map_of chs ''__init__'' = Some init" by simp
  from resolved_children_lookup[OF s this] obtain init' where
    i: "map_of chs' ''__init__'' = Some init'" "?g init = Inr init'" by blast
  from assms(1) p s i have "p' = Package n chs' (entities init')"
    by (auto split: sum.splits)
  with i resolved_children_keys[OF s] p show ?thesis by simp
qed

lemmas resolve_defs = simple_pkg_def own_entities_def full_module_name_def full_name_under_def
  f_noargs_def bound_name_def

theorem resolve_import_from_init_entities_child_kept_witness:
  "\<exists>p' init'. resolve_import_from None simple_pkg = Inr p'
      \<and> map_of (children p') ''__init__'' = Some init'
      \<and> entities p' = entities init'
      \<and> map fst (children p') = [''__init__'', ''lib2'']"
proof -
  obtain p' where r: "resolve_import_from None simple_pkg = Inr p'"
    by (simp add: resolve_defs)
  obtain init where i: "map_of (children simple_pkg) ''__init__'' = Some init"
    by (simp add: simple_pkg_def)
  have k: "map fst (children simple_pkg) = [''__init__'', ''lib2'']"
    by (simp add: simple_pkg_def)
  from resolve_import_from_init_entities_child_kept[OF r i] k r show ?thesis by auto
qed

text \<open>
  The claim as stated fails on the package \<^verbatim>\<open>simple\<close>: after resolution, \<^verbatim>\<open>__init__\<close>
  is still a key of its children map.
\<close>

theorem resolve_import_from_init_child_not_removed:
  "map_sum id (\<lambda>p'. ''__init__'' \<in> fst ` set (children p')) (resolve_import_from None simple_pkg)
     = Inr True"
  by (simp add: resolve_defs)


section \<open>The reference resolver\<close>

subsection \<open>Splitting and replacing\<close>

lemma str_split_nonempty: "str_split c s \<noteq> []"
  by (induction s) (auto split: list.splits)

lemma last_split_no_sep: "c \<notin> set (last (str_split c s))"
proof (induction s)
  case Nil
  then show ?case by simp
next
  case (Cons x xs)
  obtain w ws where w: "str_split c xs = w # ws"
    using str_split_nonempty[of c xs] by (cases "str_split c xs") auto
  show ?case
  proof (cases "x = c")
    case True
    with w Cons show ?thesis by simp
  next
    case False
    with w Cons show ?thesis by (cases ws) auto
  qed
qed

lemma split_append_no_sep:
  "c \<notin> set k \<Longrightarrow> str_split c (k @ s) = (k @ hd (str_split c s)) # tl (str_split c s)"
proof (induction k)
  case Nil
  then show ?case using str_split_nonempty[of c s] by simp
next
  case (Cons x xs)
  then show ?case by auto
qed

lemma split_replace:
  assumes "c \<noteq> d" "c \<notin> set k"
  shows "str_split c (str_replace d k s) = map (str_replace d k) (str_split c s)"
proof (induction s)
  case Nil
  then show ?case by (simp add: str_replace_def)
next
  case (Cons x xs)
  obtain w ws where w: "str_split c xs = w # ws"
    using str_split_nonempty[of c xs] by (cases "str_split c xs") auto
  have r: "str_replace d k (x # xs) = (if x = d then k else [x]) @ str_replace d k xs"
    by (simp add: str_replace_def)
  have rw: "\<And>y ys. str_replace d k (y # ys) = (if y = d then k else [y]) @ str_replace d k ys"
    by (simp add: str_replace_def)
  show ?case
  proof (cases "x = d")
    case True
    with assms have "x \<noteq> c" by auto
    from True have "str_split c (str_replace d k (x # xs)) = str_split c (k @ str_replace d k xs)"
      using r by simp
    also have "\<dots> = (k @ hd (str_split c (str_replace d k xs))) # tl (str_split c (str_replace d k xs))"
      using assms(2) by (rule split_append_no_sep)
    also have "\<dots> = (k @ str_replace d k w) # map (str_replace d k) ws"
      using Cons.IH w by simp
    also have "\<dots> = map (str_replace d k) (str_split c (x # xs))"
      using True \<open>x \<noteq> c\<close> w rw by simp
    finally show ?thesis .
  next
    case False
    show ?thesis
    proof (cases "x = c")
      case True
      with False Cons.IH r show ?thesis by (simp add: str_replace_def)
    next
      case xc: False
      with False Cons.IH r w rw show ?thesis by simp
    qed
  qed
qed

lemma last_segment_no_dot: "CHR ''.'' \<notin> set (last_segment s)"
  unfolding last_segment_def by (rule last_split_no_sep)

lemma last_segment_replace:
  assumes "last_segment t = ''*''" "CHR ''.'' \<notin> set k"
  shows "last_segment (str_replace CHR ''*'' k t) = k"
proof -
  have "str_split CHR ''.'' (str_replace CHR ''*'' k t)
          = map (str_replace CHR ''*'' k) (str_split CHR ''.'' t)"
    using assms(2) by (intro split_replace) auto
  then have "last_segment (str_replace CHR ''*'' k t) = str_replace CHR ''*'' k (last_segment t)"
    unfolding last_segment_def using str_split_nonempty[of "CHR ''.''" t] by (simp add: last_map)
  with assms(1) show ?thesis by (simp add: str_replace_def)
qed

subsection \<open>Lookups only add objects to the store\<close>

lemma wildcard_copy_extends: "wildcard_copy h w k = (r, h') \<Longrightarrow> prefix h h'"
  by (auto simp: wildcard_copy_def Let_def split: option.splits obj.splits)

lemma getitem_loop_extends: "getitem_loop h key res ks = (r, h') \<Longrightarrow> prefix h h'"
proof (induction ks arbitrary: res)
  case Nil
  then show ?case by simp
next
  case (Cons k ks)
  then show ?case
    by (auto split: option.splits obj.splits if_splits dest: wildcard_copy_extends)
qed

lemma getitem_extends: "getitem h self key = (r, h') \<Longrightarrow> prefix h h'"
  by (auto simp: getitem_def split: option.splits list.splits if_splits dest: getitem_loop_extends)

lemma try_aliases_extends:
  assumes R: "\<And>h s a p r h'. recur h s a p = Some (r, h') \<Longrightarrow> prefix h h'"
  shows "try_aliases recur h self key tls prev aliases = Some (r, h') \<Longrightarrow> prefix h h'"
proof (induction aliases arbitrary: h)
  case Nil
  then show ?case by simp
next
  case (Cons a as)
  show ?case
  proof (cases "a \<in> set prev")
    case True
    with Cons.prems show ?thesis by simp
  next
    case False
    show ?thesis
    proof (cases "lookup h self")
      case None
      with False Cons.prems show ?thesis by simp
    next
      case (Some this)
      obtain top rest where sp: "str_split CHR ''.'' a = top # rest"
        using str_split_nonempty[of "CHR ''.''" a] by (cases "str_split CHR ''.'' a") auto
      show ?thesis
      proof (cases "if top = obj_name this then Some self else map_of tls top")
        case None
        with False Some sp Cons.prems have "try_aliases recur h self key tls prev as = Some (r, h')"
          by simp
        then show ?thesis by (rule Cons.IH)
      next
        case tgt: (Some target)
        show ?thesis
        proof (cases "recur h target a (prev @ [a])")
          case None
          with False Some sp tgt Cons.prems show ?thesis by simp
        next
          case rc: (Some res)
          obtain r1 h1 where res: "res = (r1, h1)" by (cases res)
          from R rc res have p1: "prefix h h1" by blast
          show ?thesis
          proof (cases "\<exists>msg. r1 = Inl (KeyError msg)")
            case True
            with False Some sp tgt rc res Cons.prems
            have "try_aliases recur h1 self key tls prev as = Some (r, h')" by auto
            then have "prefix h1 h'" by (rule Cons.IH)
            with p1 show ?thesis by (rule prefix_order.trans)
          next
            case nk: False
            with False Some sp tgt rc res Cons.prems have "(r, h') = (r1, h1)"
              by (auto split: sum.splits error.splits)
            with p1 show ?thesis by simp
          qed
        qed
      qed
    qed
  qed
qed

lemma get_extends: "get n h self key tls prev = Some (r, h') \<Longrightarrow> prefix h h'"
proof (induction n arbitrary: h self key prev r h')
  case 0
  then show ?case by simp
next
  case (Suc n)
  obtain r1 h1 where g: "getitem h self key = (r1, h1)" by (cases "getitem h self key")
  then have p1: "prefix h h1" by (rule getitem_extends)
  have R: "\<And>h s a p r h'. (\<lambda>h' p k prev. get n h' p k tls prev) h s a p = Some (r, h') \<Longrightarrow> prefix h h'"
    using Suc.IH by simp
  have T: "\<And>as. try_aliases (\<lambda>h' p k prev. get n h' p k tls prev) h1 self key tls prev as = Some (r, h')
      \<Longrightarrow> prefix h1 h'"
    by (rule try_aliases_extends[OF R])
  from Suc.prems g have "prefix h1 h'"
    by (auto simp del: try_aliases.simps split: sum.splits option.splits obj.splits dest: T)
  with p1 show ?case by (rule prefix_order.trans)
qed

subsection \<open>What a lookup returns\<close>

lemma lookup_prefix: "prefix h0 h \<Longrightarrow> a < length h0 \<Longrightarrow> lookup h a = Some (h0 ! a)"
  by (auto simp: lookup_def prefix_def nth_append)

lemma closed_child:
  "closed h0 \<Longrightarrow> a < length h0 \<Longrightarrow> h0 ! a = OPackage n par chs ents \<Longrightarrow>
   map_of chs k = Some c \<Longrightarrow> c < length h0"
proof -
  assume c: "closed h0" and a: "a < length h0" and p: "h0 ! a = OPackage n par chs ents"
    and m: "map_of chs k = Some c"
  from a p have "OPackage n par chs ents \<in> set h0" by (metis nth_mem)
  with c have "\<forall>x \<in> snd ` set chs. x < length h0" unfolding closed_def by fastforce
  moreover from m have "c \<in> snd ` set chs" by (force dest: map_of_SomeD)
  ultimately show ?thesis by blast
qed

lemma closed_entity:
  "closed h0 \<Longrightarrow> a < length h0 \<Longrightarrow> h0 ! a = OPackage n par chs ents \<Longrightarrow>
   map_of ents k = Some e \<Longrightarrow> e < length h0"
proof -
  assume c: "closed h0" and a: "a < length h0" and p: "h0 ! a = OPackage n par chs ents"
    and m: "map_of ents k = Some e"
  from a p have "OPackage n par chs ents \<in> set h0" by (metis nth_mem)
  with c have "\<forall>x \<in> snd ` set ents. x < length h0" unfolding closed_def by fastforce
  moreover from m have "e \<in> snd ` set ents" by (force dest: map_of_SomeD)
  ultimately show ?thesis by blast
qed

lemma wildcard_copy_result:
  assumes "prefix h0 h" "w < length h0" "wildcard_copy h w k = (Inr a, h')"
  shows "fresh_wildcard h0 h k a h'"
proof -
  from assms(1,2) have l: "lookup h w = Some (h0 ! w)" by (rule lookup_prefix)
  with assms(3) obtain n ts where o: "h0 ! w = OWildcardAlias n ts"
    by (cases "h0 ! w") (auto simp: wildcard_copy_def)
  with l assms(3) have "a = length h"
    "h' = h @ [OWildcardAlias (str_replace CHR ''*'' k n) (map (str_replace CHR ''*'' k) ts)]"
    by (auto simp: wildcard_copy_def Let_def)
  with o assms(2) show ?thesis unfolding fresh_wildcard_def by blast
qed

lemma getitem_loop_result:
  assumes "prefix h0 h" "closed h0"
  shows "res < length h0 \<Longrightarrow> getitem_loop h key res ks = (Inr a, h') \<Longrightarrow>
         (a < length h0 \<and> h' = h) \<or> (ks \<noteq> [] \<and> fresh_wildcard h0 h (last ks) a h')"
proof (induction ks arbitrary: res)
  case Nil
  then show ?case by simp
next
  case (Cons k ks)
  from assms(1) Cons.prems(1) have l: "lookup h res = Some (h0 ! res)" by (rule lookup_prefix)
  show ?case
  proof (cases "h0 ! res")
    case (OPackage n par chs ents)
    show ?thesis
    proof (cases "map_of chs k")
      case (Some child)
      with assms(2) Cons.prems(1) OPackage have "child < length h0" by (metis closed_child)
      moreover from Cons.prems(2) l OPackage Some
      have "getitem_loop h key child ks = (Inr a, h')" by simp
      ultimately have "(a < length h0 \<and> h' = h) \<or> (ks \<noteq> [] \<and> fresh_wildcard h0 h (last ks) a h')"
        by (rule Cons.IH)
      then show ?thesis by auto
    next
      case None
      show ?thesis
      proof (cases "map_of ents k")
        case (Some e)
        with assms(2) Cons.prems(1) OPackage have "e < length h0" by (metis closed_entity)
        moreover from Cons.prems(2) l OPackage None Some
        have "getitem_loop h key e ks = (Inr a, h')" by simp
        ultimately have "(a < length h0 \<and> h' = h) \<or> (ks \<noteq> [] \<and> fresh_wildcard h0 h (last ks) a h')"
          by (rule Cons.IH)
        then show ?thesis by auto
      next
        case ne: None
        show ?thesis
        proof (cases "map_of ents ''*''")
          case None
          with Cons.prems(2) l OPackage \<open>map_of chs k = None\<close> ne show ?thesis by simp
        next
          case (Some w)
          with assms(2) Cons.prems(1) OPackage have w: "w < length h0" by (metis closed_entity)
          from Cons.prems(2) l OPackage \<open>map_of chs k = None\<close> ne Some
          have "ks = []" "wildcard_copy h w k = (Inr a, h')" by (auto split: if_splits)
          with wildcard_copy_result[OF assms(1) w] show ?thesis by simp
        qed
      qed
    qed
  qed (use Cons.prems(2) l in auto)
qed

lemma getitem_result:
  assumes "prefix h0 h" "closed h0" "self < length h0" "getitem h self key = (Inr a, h')"
  shows "(a < length h0 \<and> h' = h) \<or> fresh_wildcard h0 h (last_segment key) a h'"
proof -
  from assms(1,3) have l: "lookup h self = Some (h0 ! self)" by (rule lookup_prefix)
  obtain k0 ks where sp: "str_split CHR ''.'' key = k0 # ks"
    using str_split_nonempty[of "CHR ''.''" key] by (cases "str_split CHR ''.'' key") auto
  from assms(4) l sp have "getitem_loop h key self ks = (Inr a, h')"
    by (auto simp: getitem_def split: if_splits)
  from getitem_loop_result[OF assms(1,2,3) this]
  have "(a < length h0 \<and> h' = h) \<or> (ks \<noteq> [] \<and> fresh_wildcard h0 h (last ks) a h')" .
  moreover have "ks \<noteq> [] \<Longrightarrow> last ks = last_segment key"
    by (simp add: last_segment_def sp)
  ultimately show ?thesis by auto
qed

lemma finite_obj_targets: "finite (obj_targets ob)"
  by (cases ob) auto

lemma finite_obj_wildcards: "finite (obj_wildcards ob)"
  by (cases ob) auto

lemma finite_alias_universe: "finite (alias_universe h key)"
  by (simp add: alias_universe_def alias_targets_def wildcard_targets_def segments_def
      finite_obj_targets finite_obj_wildcards)

lemma stored_targets: "a < length h0 \<Longrightarrow> obj_targets (h0 ! a) \<subseteq> alias_targets h0"
  unfolding alias_targets_def by (meson UN_upper nth_mem)

lemma stored_wildcards: "a < length h0 \<Longrightarrow> obj_wildcards (h0 ! a) \<subseteq> wildcard_targets h0"
  unfolding wildcard_targets_def by (meson UN_upper nth_mem)

lemma result_targets:
  assumes "prefix h0 h" "closed h0" "self < length h0" "getitem h self key = (Inr a, h')"
    and "last_segment key \<in> segments h0 key0"
  shows "\<exists>ob. lookup h' a = Some ob \<and> obj_targets ob \<subseteq> alias_universe h0 key0"
proof -
  from getitem_result[OF assms(1-4)]
  consider "a < length h0" "h' = h" | "fresh_wildcard h0 h (last_segment key) a h'" by blast
  then show ?thesis
  proof cases
    case 1
    with assms(1) have "lookup h' a = Some (h0 ! a)" by (simp add: lookup_prefix)
    moreover from 1 have "obj_targets (h0 ! a) \<subseteq> alias_universe h0 key0"
      using stored_targets[of a h0] by (auto simp: alias_universe_def)
    ultimately show ?thesis by blast
  next
    case 2
    then obtain w n ts where w: "w < length h0" "h0 ! w = OWildcardAlias n ts" "a = length h"
      "h' = h @ [OWildcardAlias (str_replace CHR ''*'' (last_segment key) n)
                   (map (str_replace CHR ''*'' (last_segment key)) ts)]"
      unfolding fresh_wildcard_def by blast
    from w(3,4) have "lookup h' a = Some (OWildcardAlias (str_replace CHR ''*'' (last_segment key) n)
                   (map (str_replace CHR ''*'' (last_segment key)) ts))"
      by (simp add: lookup_def)
    moreover from w(1,2) have "set ts \<subseteq> wildcard_targets h0"
      using stored_wildcards[of w h0] by simp
    then have "obj_targets (OWildcardAlias (str_replace CHR ''*'' (last_segment key) n)
                   (map (str_replace CHR ''*'' (last_segment key)) ts)) \<subseteq> alias_universe h0 key0"
      using assms(5) by (auto simp: alias_universe_def)
    ultimately show ?thesis by blast
  qed
qed

lemma universe_segments:
  assumes "wildcards_end_in_star h0" "a \<in> alias_universe h0 key0"
  shows "last_segment a \<in> segments h0 key0"
proof -
  from assms(2) consider "a \<in> alias_targets h0"
    | t k where "t \<in> wildcard_targets h0" "k \<in> segments h0 key0" "a = str_replace CHR ''*'' k t"
    by (auto simp: alias_universe_def)
  then show ?thesis
  proof cases
    case 1
    then show ?thesis by (simp add: segments_def)
  next
    case 2
    from 2(2) have "CHR ''.'' \<notin> set k" by (auto simp: segments_def last_segment_no_dot)
    moreover from assms(1) 2(1) have "last_segment t = ''*''"
      by (simp add: wildcards_end_in_star_def)
    ultimately have "last_segment a = k" using 2(3) by (simp add: last_segment_replace)
    with 2(2) show ?thesis by simp
  qed
qed

subsection \<open>The recursion comes back\<close>

lemma try_aliases_terminates:
  assumes R: "\<And>h s a. prefix h0 h \<Longrightarrow> s < length h0 \<Longrightarrow> a \<in> U \<Longrightarrow> a \<notin> set prev \<Longrightarrow>
                \<exists>res. recur h s a (prev @ [a]) = Some res"
    and E: "\<And>h s a p r h'. recur h s a p = Some (r, h') \<Longrightarrow> prefix h h'"
    and tls: "\<forall>a \<in> snd ` set tls. a < length h0"
    and self: "self < length h0"
  shows "set aliases \<subseteq> U \<Longrightarrow> prefix h0 h \<Longrightarrow>
         \<exists>res. try_aliases recur h self key tls prev aliases = Some res"
proof (induction aliases arbitrary: h)
  case Nil
  then show ?case by simp
next
  case (Cons a as)
  from Cons.prems have aU: "a \<in> U" and asU: "set as \<subseteq> U" by auto
  show ?case
  proof (cases "a \<in> set prev")
    case True
    then show ?thesis by simp
  next
    case False
    from Cons.prems(2) self have l: "lookup h self = Some (h0 ! self)" by (rule lookup_prefix)
    obtain top rest where sp: "str_split CHR ''.'' a = top # rest"
      using str_split_nonempty[of "CHR ''.''" a] by (cases "str_split CHR ''.'' a") auto
    show ?thesis
    proof (cases "if top = obj_name (h0 ! self) then Some self else map_of tls top")
      case None
      with False l sp have "try_aliases recur h self key tls prev (a # as)
          = try_aliases recur h self key tls prev as" by simp
      with Cons.IH[OF asU Cons.prems(2)] show ?thesis by simp
    next
      case (Some target)
      have t: "target < length h0"
      proof (cases "top = obj_name (h0 ! self)")
        case True
        with Some self show ?thesis by simp
      next
        case nt: False
        with Some have "map_of tls top = Some target" by simp
        then have "target \<in> snd ` set tls" by (force dest: map_of_SomeD)
        with tls show ?thesis by blast
      qed
      from R[OF Cons.prems(2) t aU False] obtain r1 h1 where
        rc: "recur h target a (prev @ [a]) = Some (r1, h1)" by auto
      from E[OF rc] Cons.prems(2) have p1: "prefix h0 h1" by (rule prefix_order.trans[rotated])
      show ?thesis
      proof (cases "\<exists>msg. r1 = Inl (KeyError msg)")
        case True
        with False l sp Some rc have "try_aliases recur h self key tls prev (a # as)
          = try_aliases recur h1 self key tls prev as" by auto
        with Cons.IH[OF asU p1] show ?thesis by simp
      next
        case nk: False
        with False l sp Some rc have "try_aliases recur h self key tls prev (a # as) = Some (r1, h1)"
          by (auto split: sum.splits error.splits)
        then show ?thesis by simp
      qed
    qed
  qed
qed

lemma get_terminates_from:
  assumes c: "closed h0" and w: "wildcards_end_in_star h0"
    and tls: "\<forall>a \<in> snd ` set tls. a < length h0"
  shows "prefix h0 h \<Longrightarrow> self < length h0 \<Longrightarrow> last_segment key \<in> segments h0 key0 \<Longrightarrow>
         card (alias_universe h0 key0 - set prev) < n \<Longrightarrow>
         \<exists>res. get n h self key tls prev = Some res"
proof (induction n arbitrary: h self key prev)
  case 0
  then show ?case by simp
next
  case (Suc n)
  let ?U = "alias_universe h0 key0"
  let ?recur = "\<lambda>h' p k prev. get n h' p k tls prev"
  obtain r1 h1 where g: "getitem h self key = (r1, h1)" by (cases "getitem h self key")
  from getitem_extends[OF g] Suc.prems(1) have p1: "prefix h0 h1"
    by (rule prefix_order.trans[rotated])
  show ?case
  proof (cases r1)
    case (Inl e)
    with g show ?thesis by simp
  next
    case (Inr a)
    from result_targets[OF Suc.prems(1) c Suc.prems(2) g[unfolded Inr] Suc.prems(3)]
    obtain ob where ob: "lookup h1 a = Some ob" "obj_targets ob \<subseteq> ?U" by blast
    have R: "\<And>h s a. prefix h0 h \<Longrightarrow> s < length h0 \<Longrightarrow> a \<in> ?U \<Longrightarrow> a \<notin> set prev \<Longrightarrow>
                \<exists>res. ?recur h s a (prev @ [a]) = Some res"
    proof -
      fix h s a
      assume ph: "prefix h0 h" and s: "s < length h0" and aU: "a \<in> ?U" and np: "a \<notin> set prev"
      have seg: "last_segment a \<in> segments h0 key0" using w aU by (rule universe_segments)
      have "?U - set (prev @ [a]) \<subset> ?U - set prev" using aU np by auto
      then have "card (?U - set (prev @ [a])) < card (?U - set prev)"
        using finite_alias_universe[of h0 key0] by (intro psubset_card_mono) auto
      with Suc.prems(4) have "card (?U - set (prev @ [a])) < n" by simp
      from Suc.IH[OF ph s seg this] show "\<exists>res. ?recur h s a (prev @ [a]) = Some res" .
    qed
    have E: "\<And>h s a p r h'. ?recur h s a p = Some (r, h') \<Longrightarrow> prefix h h'"
      by (rule get_extends)
    have T: "\<exists>res. try_aliases ?recur h1 self key tls prev as = Some res"
      if asU: "set as \<subseteq> ?U" for as
    proof (rule try_aliases_terminates[where ?h0.0=h0 and U="?U"])
      show "\<And>h s a. prefix h0 h \<Longrightarrow> s < length h0 \<Longrightarrow> a \<in> ?U \<Longrightarrow> a \<notin> set prev \<Longrightarrow>
                \<exists>res. ?recur h s a (prev @ [a]) = Some res"
        by (rule R)
      show "\<And>h s a p r h'. ?recur h s a p = Some (r, h') \<Longrightarrow> prefix h h'"
        by (rule E)
      show "\<forall>a \<in> snd ` set tls. a < length h0" by (rule tls)
      show "self < length h0" by (rule Suc.prems(2))
      show "set as \<subseteq> ?U" by (rule asU)
      show "prefix h0 h1" by (rule p1)
    qed
    show ?thesis
    proof (cases ob)
      case (OAlias nm fa)
      with ob(2) have "set [fa] \<subseteq> ?U" by simp
      from T[OF this] g Inr ob(1) OAlias show ?thesis by (simp del: try_aliases.simps)
    next
      case (OWildcardAlias nm fas)
      with ob(2) have "set fas \<subseteq> ?U" by simp
      from T[OF this] g Inr ob(1) OWildcardAlias show ?thesis by (simp del: try_aliases.simps)
    qed (use g Inr ob(1) in auto)
  qed
qed

lemma get_terminates:
  assumes "closed h" "wildcards_end_in_star h" "\<forall>a \<in> snd ` set tls. a < length h"
    "self < length h" "card (alias_universe h key) < n"
  shows "\<exists>res. get n h self key tls [] = Some res"
proof -
  have "last_segment key \<in> segments h key" by (simp add: segments_def)
  moreover from assms(5) have "card (alias_universe h key - set []) < n" by simp
  ultimately show ?thesis
    using get_terminates_from[OF assms(1,2,3) prefix_order.refl assms(4)] by blast
qed

subsection \<open>A wildcard target that grows\<close>

text \<open>
  Without the condition on the wildcard targets the recursion need not come back: with the
  target \<^verbatim>\<open>P.a*\<close>, the lookup of \<^verbatim>\<open>P.b\<close> follows \<^verbatim>\<open>P.ab\<close>, \<^verbatim>\<open>P.aab\<close> and so on, each
  alias new, and exceeds every depth bound (Python ends it with RecursionError).
\<close>

lemma split_no_sep: "c \<notin> set s \<Longrightarrow> str_split c s = [s]"
  by (induction s) auto

lemma split_P: "CHR ''.'' \<notin> set s \<Longrightarrow> str_split CHR ''.'' (''P.'' @ s) = [''P'', s]"
  by (simp add: split_no_sep)

lemma get_star_suffix_diverges:
  "prefix star_suffix_store h \<Longrightarrow> \<forall>p \<in> set prev. length p \<le> k + 3 \<Longrightarrow>
   get n h 0 (''P.'' @ replicate k CHR ''a'' @ ''b'') [] prev = None"
proof (induction n arbitrary: h k prev)
  case 0
  then show ?case by simp
next
  case (Suc n)
  let ?s = "replicate k CHR ''a'' @ ''b''"
  let ?key = "''P.'' @ ?s"
  let ?follow = "''P.'' @ replicate (Suc k) CHR ''a'' @ ''b''"
  let ?h1 = "h @ [OWildcardAlias ?s [?follow]]"
  have nodot: "CHR ''.'' \<notin> set ?s" by auto
  have nodot': "CHR ''.'' \<notin> set (replicate (Suc k) CHR ''a'' @ ''b'')" by auto
  have l0: "lookup h 0 = Some (OPackage ''P'' None [] [(''*'', 1)])"
    using lookup_prefix[OF Suc.prems(1), of 0] by (simp add: star_suffix_store_def)
  have l1: "lookup h 1 = Some (OWildcardAlias ''*'' [''P.a*''])"
    using lookup_prefix[OF Suc.prems(1), of 1] by (simp add: star_suffix_store_def)
  have ns: "?s \<noteq> ''*''"
  proof
    assume "?s = ''*''"
    then have "last ?s = last ''*''" by simp
    then show False by simp
  qed
  have wc: "wildcard_copy h 1 ?s = (Inr (length h), ?h1)"
    using l1 by (simp add: wildcard_copy_def Let_def str_replace_def)
  have gi: "getitem h 0 ?key = (Inr (length h), ?h1)"
    unfolding getitem_def using l0 split_P[OF nodot] ns wc by simp
  have p1: "prefix star_suffix_store ?h1"
    using Suc.prems(1) by (meson prefix_order.trans prefixI)
  have l0': "lookup ?h1 0 = Some (OPackage ''P'' None [] [(''*'', 1)])"
    using lookup_prefix[OF p1, of 0] by (simp add: star_suffix_store_def)
  have lr: "lookup ?h1 (length h) = Some (OWildcardAlias ?s [?follow])"
    by (simp add: lookup_def)
  have notin: "?follow \<notin> set prev"
  proof
    assume "?follow \<in> set prev"
    with Suc.prems(2) have "length ?follow \<le> k + 3" by blast
    then show False by simp
  qed
  have prev': "\<forall>p \<in> set (prev @ [?follow]). length p \<le> Suc k + 3"
    using Suc.prems(2) by auto
  have rec: "get n ?h1 0 ?follow [] (prev @ [?follow]) = None"
    using Suc.IH[OF p1 prev'] by simp
  have sp: "str_split CHR ''.'' ?follow = [''P'', replicate (Suc k) CHR ''a'' @ ''b'']"
    using split_P[OF nodot'] by simp
  have "try_aliases (\<lambda>h' p k prev. get n h' p k [] prev) ?h1 0 ?key [] prev [?follow] = None"
    using notin l0' sp rec by (simp del: replicate.simps)
  with gi lr show ?case by (simp del: try_aliases.simps replicate.simps)
qed

lemma get_star_suffix_never_returns: "get n star_suffix_store 0 ''P.b'' [] [] = None"
  using get_star_suffix_diverges[of star_suffix_store "[]" 0 n] by simp


subsection \<open>The cyclic pair\<close>

lemmas store_defs = getitem_def lookup_def wildcard_copy_def str_replace_def Let_def

lemma cyclic_A:
  "get (Suc (Suc (Suc m))) cyclic_store 0 ''P.A'' [] []
     = Some (Inl (KeyError ''P.A cannot be resolved in this package''), cyclic_store)"
  by (simp add: store_defs cyclic_store_def)

lemma cyclic_B:
  "get (Suc (Suc (Suc m))) cyclic_store 0 ''P.B'' [] []
     = Some (Inl (KeyError ''P.B cannot be resolved in this package''), cyclic_store)"
  by (simp add: store_defs cyclic_store_def)

lemma cyclic_inner:
  "get (Suc m) cyclic_store 0 ''P.A'' [] [''P.B'', ''P.A'']
     = Some (Inl (KeyError ''P.A is a cyclic reference''), cyclic_store)"
  by (simp add: store_defs cyclic_store_def)

lemma cyclic_universe: "alias_universe cyclic_store key = {''P.B'', ''P.A''}"
  by (auto simp: alias_universe_def alias_targets_def wildcard_targets_def cyclic_store_def)

text \<open>
  The cyclic store meets the conditions of \<open>get_terminates\<close>, with two aliases to
  follow: resolving \<^verbatim>\<open>P.A\<close> comes back at any depth bound above two.
\<close>

lemma cyclic_pair_terminates: "2 < n \<Longrightarrow> \<exists>res. get n cyclic_store 0 ''P.A'' [] [] = Some res"
proof -
  assume n: "2 < n"
  have c: "closed cyclic_store" by (simp add: closed_def cyclic_store_def)
  have w: "wildcards_end_in_star cyclic_store"
    by (simp add: wildcards_end_in_star_def wildcard_targets_def cyclic_store_def)
  have t: "\<forall>a \<in> snd ` set ([] :: (string \<times> addr) list). a < length cyclic_store" by simp
  have s: "0 < length cyclic_store" by (simp add: cyclic_store_def)
  from n have u: "card (alias_universe cyclic_store ''P.A'') < n" by (simp add: cyclic_universe)
  from get_terminates[OF c w t s u] show ?thesis .
qed

text \<open>
  C3. For the cyclic pair, where \<^verbatim>\<open>A\<close> is an alias of \<^verbatim>\<open>P.B\<close> and \<^verbatim>\<open>B\<close> one of
  \<^verbatim>\<open>P.A\<close>, resolving \<^verbatim>\<open>P.A\<close> or \<^verbatim>\<open>P.B\<close> with no previous aliases comes back at
  every depth bound of three or more, with the KeyError that says
  \<^verbatim>\<open>cannot be resolved in this package\<close>. The KeyError that says
  \<^verbatim>\<open>is a cyclic reference\<close> is raised two calls further in, where the alias is found
  among the previous ones, and the call around it catches it.
\<close>

theorem cyclic_pair_surfaces_cannot_be_resolved:
  "get (Suc (Suc (Suc m))) cyclic_store 0 ''P.A'' [] []
     = Some (Inl (KeyError ''P.A cannot be resolved in this package''), cyclic_store)
   \<and> get (Suc (Suc (Suc m))) cyclic_store 0 ''P.B'' [] []
     = Some (Inl (KeyError ''P.B cannot be resolved in this package''), cyclic_store)
   \<and> get (Suc m) cyclic_store 0 ''P.A'' [] [''P.B'', ''P.A'']
     = Some (Inl (KeyError ''P.A is a cyclic reference''), cyclic_store)"
  using cyclic_A cyclic_B cyclic_inner by simp

subsection \<open>The cyclic-reference message reaches no caller\<close>

text \<open>
  Called with no previous aliases, as every caller of \<^verbatim>\<open>get\<close> does, \<^verbatim>\<open>get\<close> raises a
  KeyError with one of three messages, none of which is the cyclic-reference one, whatever
  the store, the key and the depth bound.
\<close>

lemma wildcard_copy_no_KeyError: "wildcard_copy h w k \<noteq> (Inl (KeyError msg), h')"
  by (auto simp: wildcard_copy_def Let_def split: option.splits obj.splits)

lemma getitem_loop_KeyError:
  "getitem_loop h key res ks = (Inl (KeyError msg), h') \<Longrightarrow>
   msg = key @ '' does not correspond to an API entity''"
proof (induction ks arbitrary: res)
  case Nil
  then show ?case by simp
next
  case (Cons k ks)
  then show ?case
    by (auto simp: wildcard_copy_no_KeyError split: option.splits obj.splits if_splits)
qed

lemma getitem_KeyError:
  "getitem h self key = (Inl (KeyError msg), h') \<Longrightarrow>
   msg = key @ '' does not belong to this package''
   \<or> msg = key @ '' does not correspond to an API entity''"
  by (auto simp: getitem_def split: option.splits list.splits if_splits
      dest: getitem_loop_KeyError)

lemma try_aliases_first_call_KeyError:
  "try_aliases recur h self key tls [] aliases = Some (Inl (KeyError msg), h') \<Longrightarrow>
   msg = key @ '' cannot be resolved in this package''"
proof (induction aliases arbitrary: h)
  case Nil
  then show ?case by simp
next
  case (Cons a as)
  show ?case
  proof (cases "lookup h self")
    case None
    with Cons.prems show ?thesis by simp
  next
    case (Some this)
    show ?thesis
    proof (cases "str_split CHR ''.'' a")
      case Nil
      with Some Cons.prems show ?thesis by simp
    next
      case (Cons top rest)
      show ?thesis
      proof (cases "if top = obj_name this then Some self else map_of tls top")
        case None
        with Some Cons Cons.prems
        have "try_aliases recur h self key tls [] as = Some (Inl (KeyError msg), h')" by simp
        then show ?thesis by (rule Cons.IH)
      next
        case tgt: (Some target)
        show ?thesis
        proof (cases "recur h target a ([] @ [a])")
          case None
          with Some Cons tgt Cons.prems show ?thesis by simp
        next
          case rc: (Some res)
          obtain r1 h1 where res: "res = (r1, h1)" by (cases res)
          show ?thesis
          proof (cases "\<exists>m. r1 = Inl (KeyError m)")
            case True
            with Some Cons tgt rc res Cons.prems
            have "try_aliases recur h1 self key tls [] as = Some (Inl (KeyError msg), h')"
              by auto
            then show ?thesis by (rule Cons.IH)
          next
            case False
            with Some Cons tgt rc res Cons.prems have "(Inl (KeyError msg), h') = (r1, h1)"
              by (auto split: sum.splits error.splits)
            with False show ?thesis by auto
          qed
        qed
      qed
    qed
  qed
qed

lemma get_first_call_KeyError:
  "get n h self key tls [] = Some (Inl (KeyError msg), h') \<Longrightarrow>
   msg = key @ '' does not belong to this package''
   \<or> msg = key @ '' does not correspond to an API entity''
   \<or> msg = key @ '' cannot be resolved in this package''"
proof (cases n)
  case 0
  assume "get n h self key tls [] = Some (Inl (KeyError msg), h')"
  with 0 show ?thesis by simp
next
  case (Suc m)
  assume g: "get n h self key tls [] = Some (Inl (KeyError msg), h')"
  obtain r1 h1 where gi: "getitem h self key = (r1, h1)" by (cases "getitem h self key")
  show ?thesis
  proof (cases r1)
    case (Inl e)
    with g Suc gi have "getitem h self key = (Inl (KeyError msg), h')" by simp
    from getitem_KeyError[OF this] show ?thesis by blast
  next
    case (Inr res)
    with g Suc gi have "msg = key @ '' cannot be resolved in this package''"
      by (auto simp del: try_aliases.simps split: option.splits obj.splits
          dest: try_aliases_first_call_KeyError)
    then show ?thesis by simp
  qed
qed

lemma not_cyclic_message:
  "a @ '' does not belong to this package'' \<noteq> b @ '' is a cyclic reference''"
  "a @ '' does not correspond to an API entity'' \<noteq> b @ '' is a cyclic reference''"
  "a @ '' cannot be resolved in this package'' \<noteq> b @ '' is a cyclic reference''"
proof -
  have r: "\<And>x y s t. x @ s = y @ t \<Longrightarrow> take 2 (rev s @ rev x) = take 2 (rev t @ rev y)"
    by (metis rev_append)
  show "a @ '' does not belong to this package'' \<noteq> b @ '' is a cyclic reference''"
    using r[of a "'' does not belong to this package''" b "'' is a cyclic reference''"] by auto
  show "a @ '' does not correspond to an API entity'' \<noteq> b @ '' is a cyclic reference''"
    using r[of a "'' does not correspond to an API entity''" b "'' is a cyclic reference''"] by auto
  show "a @ '' cannot be resolved in this package'' \<noteq> b @ '' is a cyclic reference''"
    using r[of a "'' cannot be resolved in this package''" b "'' is a cyclic reference''"] by auto
qed

lemma cyclic_message_never_surfaces:
  "get n h self key top_levels [] \<noteq> Some (Inl (KeyError (k @ '' is a cyclic reference'')), h')"
proof
  assume "get n h self key top_levels [] = Some (Inl (KeyError (k @ '' is a cyclic reference'')), h')"
  from get_first_call_KeyError[OF this]
  consider "k @ '' is a cyclic reference'' = key @ '' does not belong to this package''"
    | "k @ '' is a cyclic reference'' = key @ '' does not correspond to an API entity''"
    | "k @ '' is a cyclic reference'' = key @ '' cannot be resolved in this package''"
    by blast
  then show False
  proof cases
    case 1
    then show ?thesis using not_cyclic_message(1)[of key k] by (simp only:)
  next
    case 2
    then show ?thesis using not_cyclic_message(2)[of key k] by (simp only:)
  next
    case 3
    then show ?thesis using not_cyclic_message(3)[of key k] by (simp only:)
  qed
qed

subsection \<open>The store after a lookup\<close>

lemma prefix_lookup: "prefix h h' \<Longrightarrow> a < length h \<Longrightarrow> lookup h' a = lookup h a"
  by (auto simp: lookup_def prefix_def nth_append)

lemma wildcard_getitem:
  "getitem wildcard_store 0 ''P.foo''
     = (Inr 4, wildcard_store @ [OWildcardAlias ''foo'' [''Q.foo'']])"
  by (simp add: store_defs wildcard_store_def)

lemma wildcard_get:
  "get (Suc (Suc m)) wildcard_store 0 ''P.foo'' wildcard_top_levels []
     = Some (Inr 3, wildcard_store @ [OWildcardAlias ''foo'' [''Q.foo'']])"
  by (simp add: store_defs wildcard_store_def wildcard_top_levels_def f_noargs_def)

text \<open>
  C9. A lookup, failing or not, leaves every object of the store as it was: after
  \<^verbatim>\<open>__getitem__\<close> and after \<^verbatim>\<open>get\<close>, each address of the store before holds the object
  it held. On a closed store, the result of \<^verbatim>\<open>__getitem__\<close> is either a stored object,
  and then the store is the same, or the one new object, a copy of a stored wildcard alias
  with \<^verbatim>\<open>*\<close> replaced by the last segment of the key. For the package \<^verbatim>\<open>P\<close> whose
  entities hold \<^verbatim>\<open>WildcardAlias(["Q.*"])\<close>, looking up \<^verbatim>\<open>P.foo\<close> yields the new object at
  address 4, named \<^verbatim>\<open>foo\<close> with the target \<^verbatim>\<open>Q.foo\<close>, and \<^verbatim>\<open>get\<close> follows it to the
  function \<^verbatim>\<open>foo\<close> of \<^verbatim>\<open>Q\<close> at address 3.
\<close>

theorem lookup_leaves_store_unchanged:
  "(getitem h self key = (r, h') \<longrightarrow> (\<forall>a < length h. lookup h' a = lookup h a))
   \<and> (get n h self key top_levels prev_aliases = Some (r2, h2)
        \<longrightarrow> (\<forall>a < length h. lookup h2 a = lookup h a))
   \<and> (closed h \<and> self < length h \<and> getitem h self key = (Inr res, h')
        \<longrightarrow> (res < length h \<and> h' = h) \<or> fresh_wildcard h h (last_segment key) res h')
   \<and> getitem wildcard_store 0 ''P.foo''
        = (Inr 4, wildcard_store @ [OWildcardAlias ''foo'' [''Q.foo'']])
   \<and> get (Suc (Suc m)) wildcard_store 0 ''P.foo'' wildcard_top_levels []
        = Some (Inr 3, wildcard_store @ [OWildcardAlias ''foo'' [''Q.foo'']])"
proof -
  have 1: "getitem h self key = (r, h') \<longrightarrow> (\<forall>a < length h. lookup h' a = lookup h a)"
    using getitem_extends prefix_lookup by blast
  have 2: "get n h self key top_levels prev_aliases = Some (r2, h2)
        \<longrightarrow> (\<forall>a < length h. lookup h2 a = lookup h a)"
    using get_extends prefix_lookup by blast
  have 3: "closed h \<and> self < length h \<and> getitem h self key = (Inr res, h')
        \<longrightarrow> (res < length h \<and> h' = h) \<or> fresh_wildcard h h (last_segment key) res h'"
    using getitem_result[OF prefix_order.refl] by blast
  from 1 2 3 wildcard_getitem wildcard_get show ?thesis by blast
qed

theorem lookup_leaves_store_unchanged_witness:
  "lookup (wildcard_store @ [OWildcardAlias ''foo'' [''Q.foo'']]) 1
     = Some (OWildcardAlias ''*'' [''Q.*''])
   \<and> fresh_wildcard wildcard_store wildcard_store ''foo'' 4
       (wildcard_store @ [OWildcardAlias ''foo'' [''Q.foo'']])"
proof -
  let ?h' = "wildcard_store @ [OWildcardAlias ''foo'' [''Q.foo'']]"
  have gi: "getitem wildcard_store 0 ''P.foo'' = (Inr 4, ?h')"
    by (rule wildcard_getitem)
  have g: "get (Suc (Suc 0)) wildcard_store 0 ''P.foo'' wildcard_top_levels [] = Some (Inr 3, ?h')"
    by (rule wildcard_get)
  have c: "closed wildcard_store" by (simp add: closed_def wildcard_store_def)
  have len: "length wildcard_store = 4" by (simp add: wildcard_store_def)
  have seg: "last_segment ''P.foo'' = ''foo''" by (simp add: last_segment_def)
  note t = lookup_leaves_store_unchanged[where h=wildcard_store and self=0 and key="''P.foo''"
      and r="Inr 4" and h'="?h'" and n="Suc (Suc 0)" and top_levels=wildcard_top_levels
      and prev_aliases="[]" and ?r2.0="Inr 3" and ?h2.0="?h'" and res=4]
  from t gi len have "lookup ?h' 1 = lookup wildcard_store 1" by simp
  moreover from t g len have "lookup ?h' 2 = lookup wildcard_store 2" by simp
  moreover from t gi c len seg have "fresh_wildcard wildcard_store wildcard_store ''foo'' 4 ?h'"
    by simp
  ultimately show ?thesis by (simp add: lookup_def wildcard_store_def)
qed


end
